theory Spec2Isabelle
  imports Complex_Main
begin

section \<open>JavaScript values of the clustering engine\<close>

text \<open>
  The engine works on JavaScript numbers and on missing entries. A cell is \<open>undefined\<close>
  (a missing entry, or an index beyond the end of an array), one of the three special
  numbers \<open>NaN\<close>, \<open>Infinity\<close>, \<open>-Infinity\<close>, or a finite number. Finite numbers
  are the reals: arithmetic on them is exact, so rounding, overflow to \<open>Infinity\<close>,
  underflow to \<open>0\<close> and the sign of zero are outside the model; the special values
  follow IEEE 754. Arrays are dense: a hole is read as \<open>undefined\<close>.
\<close>

datatype jsval = Undefined | NaN | PInf | NInf | Num real

datatype error = TypeError

type_synonym row = "jsval list"
type_synonym matrix = "row list"

text \<open>\<open>xs[i]\<close>: an index beyond the end reads \<open>undefined\<close>.\<close>

definition js_nth :: "jsval list \<Rightarrow> nat \<Rightarrow> jsval" where
  "js_nth xs i = (if i < length xs then xs ! i else Undefined)"

text \<open>Truthiness: \<open>undefined\<close>, \<open>NaN\<close> and \<open>0\<close> are falsy.\<close>

fun truthy :: "jsval \<Rightarrow> bool" where
  "truthy Undefined = False"
| "truthy NaN = False"
| "truthy (Num x) = (x \<noteq> 0)"
| "truthy PInf = True"
| "truthy NInf = True"

text \<open>\<open>a || b\<close>\<close>

definition js_or :: "jsval \<Rightarrow> jsval \<Rightarrow> jsval" where
  "js_or a b = (if truthy a then a else b)"

text \<open>\<open>Number(v)\<close>: \<open>undefined\<close> converts to \<open>NaN\<close>.\<close>

fun Number :: "jsval \<Rightarrow> jsval" where
  "Number Undefined = NaN"
| "Number v = v"

fun js_add :: "jsval \<Rightarrow> jsval \<Rightarrow> jsval" where
  "js_add (Num x) (Num y) = Num (x + y)"
| "js_add (Num x) PInf = PInf"
| "js_add (Num x) NInf = NInf"
| "js_add PInf (Num y) = PInf"
| "js_add PInf PInf = PInf"
| "js_add NInf (Num y) = NInf"
| "js_add NInf NInf = NInf"
| "js_add _ _ = NaN"

fun js_sub :: "jsval \<Rightarrow> jsval \<Rightarrow> jsval" where
  "js_sub (Num x) (Num y) = Num (x - y)"
| "js_sub (Num x) PInf = NInf"
| "js_sub (Num x) NInf = PInf"
| "js_sub PInf (Num y) = PInf"
| "js_sub PInf NInf = PInf"
| "js_sub NInf (Num y) = NInf"
| "js_sub NInf PInf = NInf"
| "js_sub _ _ = NaN"

fun js_mul :: "jsval \<Rightarrow> jsval \<Rightarrow> jsval" where
  "js_mul (Num x) (Num y) = Num (x * y)"
| "js_mul (Num x) PInf = (if x = 0 then NaN else if 0 < x then PInf else NInf)"
| "js_mul (Num x) NInf = (if x = 0 then NaN else if 0 < x then NInf else PInf)"
| "js_mul PInf (Num y) = (if y = 0 then NaN else if 0 < y then PInf else NInf)"
| "js_mul NInf (Num y) = (if y = 0 then NaN else if 0 < y then NInf else PInf)"
| "js_mul PInf PInf = PInf"
| "js_mul PInf NInf = NInf"
| "js_mul NInf PInf = NInf"
| "js_mul NInf NInf = PInf"
| "js_mul _ _ = NaN"

fun js_div :: "jsval \<Rightarrow> jsval \<Rightarrow> jsval" where
  "js_div (Num x) (Num y) =
     (if y = 0 then (if x = 0 then NaN else if 0 < x then PInf else NInf) else Num (x / y))"
| "js_div (Num x) PInf = Num 0"
| "js_div (Num x) NInf = Num 0"
| "js_div PInf (Num y) = (if 0 \<le> y then PInf else NInf)"
| "js_div NInf (Num y) = (if 0 \<le> y then NInf else PInf)"
| "js_div _ _ = NaN"

text \<open>\<open>Math.sqrt\<close>\<close>

fun Math_sqrt :: "jsval \<Rightarrow> jsval" where
  "Math_sqrt (Num x) = (if x < 0 then NaN else Num (sqrt x))"
| "Math_sqrt PInf = PInf"
| "Math_sqrt _ = NaN"

text \<open>\<open>a <= b\<close> and \<open>a < b\<close>: false as soon as one side is \<open>NaN\<close> (or \<open>undefined\<close>).\<close>

fun js_le :: "jsval \<Rightarrow> jsval \<Rightarrow> bool" where
  "js_le (Num x) (Num y) = (x \<le> y)"
| "js_le (Num x) PInf = True"
| "js_le NInf (Num y) = True"
| "js_le NInf NInf = True"
| "js_le NInf PInf = True"
| "js_le PInf PInf = True"
| "js_le _ _ = False"

fun js_lt :: "jsval \<Rightarrow> jsval \<Rightarrow> bool" where
  "js_lt (Num x) (Num y) = (x < y)"
| "js_lt (Num x) PInf = True"
| "js_lt NInf (Num y) = True"
| "js_lt NInf PInf = True"
| "js_lt _ _ = False"

fun isFinite :: "jsval \<Rightarrow> bool" where
  "isFinite (Num x) = True"
| "isFinite _ = False"

section \<open>Distance metric\<close>

definition euclidean :: "row \<Rightarrow> row \<Rightarrow> jsval" where
  "euclidean a b =
     Math_sqrt
       (fold (\<lambda>i s.
                let ai = Number (js_or (js_nth a i) (Num 0));
                    bi = Number (js_or (js_nth b i) (Num 0));
                    d = js_sub ai bi
                in js_add s (js_mul d d))
             [0..<max (length a) (length b)] (Num 0))"

section \<open>Z-score scaler\<close>

text \<open>
  A scaler argument is \<open>null\<close>/\<open>undefined\<close> (\<open>NoScaler\<close>) or an object \<open>Scaler mean std\<close> whose
  \<open>mean\<close> and \<open>std\<close> are each an array or something else (also a missing property).
\<close>

datatype field = NotArray | Arr row

datatype scaler = NoScaler | Scaler field field

text \<open>
  The argument of \<open>computeScaler\<close> is \<open>None\<close> when it is not an array. In both loops
  \<open>i\<close> runs over the rows and \<open>j\<close> over the columns of the first row.
\<close>

definition column_sum :: "matrix \<Rightarrow> nat \<Rightarrow> jsval" where
  "column_sum X j =
     fold (\<lambda>i s. js_add s (Number (js_or (js_nth (X ! i) j) (Num 0)))) [0..<length X] (Num 0)"

definition column_sqdev :: "matrix \<Rightarrow> row \<Rightarrow> nat \<Rightarrow> jsval" where
  "column_sqdev X mean j =
     fold (\<lambda>i s. let v = js_sub (Number (js_or (js_nth (X ! i) j) (Num 0))) (mean ! j)
                 in js_add s (js_mul v v))
          [0..<length X] (Num 0)"

definition computeScaler :: "matrix option \<Rightarrow> scaler" where
  "computeScaler Xo =
     (case Xo of
        None \<Rightarrow> Scaler (Arr []) (Arr [])
      | Some X \<Rightarrow>
          if length X = 0 then Scaler (Arr []) (Arr [])
          else
            let n = length X;
                m = length (X ! 0);
                mean = map (\<lambda>j. js_div (column_sum X j) (Num (real n))) [0..<m];
                std = map (\<lambda>j.
                        let sd = Math_sqrt (js_div (column_sqdev X mean j)
                                                   (Num (real_of_int (max 1 (int n - 1)))))
                        in if \<not> isFinite sd \<or> js_le sd (Num (1 / 10 ^ 8)) then Num 1 else sd)
                      [0..<m]
            in Scaler (Arr mean) (Arr std))"

fun applyScalerToRow :: "row \<Rightarrow> scaler \<Rightarrow> row" where
  "applyScalerToRow row (Scaler (Arr mean) (Arr std)) =
     map (\<lambda>(v, j). js_div (js_sub (Number (js_or v (Num 0))) (js_or (js_nth mean j) (Num 0)))
                           (js_or (js_nth std j) (Num 1)))
         (zip row [0..<length row])"
| "applyScalerToRow row _ = row"

definition applyScaler :: "matrix \<Rightarrow> scaler \<Rightarrow> matrix" where
  "applyScaler X scaler = map (\<lambda>r. applyScalerToRow r scaler) X"

section \<open>DBSCAN\<close>

text \<open>A label slot is unset (\<open>undefined\<close>) or holds \<open>-1\<close> or a cluster id.\<close>

datatype label = Unset | Lab int

text \<open>
  \<open>regionQuery\<close> is the closure over the scaled matrix and \<open>eps\<close>. It is only called
  with \<open>i\<close> below the number of rows: the walk below stops with a \<open>TypeError\<close> before
  it would be called on a row that does not exist, as \<open>euclidean(undefined, ...)\<close> does.
\<close>

definition regionQuery :: "matrix \<Rightarrow> jsval \<Rightarrow> nat \<Rightarrow> nat list" where
  "regionQuery X eps i =
     filter (\<lambda>j. i \<noteq> j \<and> js_le (euclidean (X ! i) (X ! j)) eps) [0..<length X]"

text \<open>\<open>for (const nb of jNeighbors) if (!stack.includes(nb)) stack.push(nb)\<close>\<close>

definition pushNew :: "nat list \<Rightarrow> nat list \<Rightarrow> nat list" where
  "pushNew jNeighbors stack =
     fold (\<lambda>nb st. if nb \<in> set st then st else st @ [nb]) jNeighbors stack"

text \<open>\<open>if (labels[j] === undefined || labels[j] === -1) labels[j] = clusterId\<close>\<close>

definition claimLabel :: "int \<Rightarrow> nat \<Rightarrow> label list \<Rightarrow> label list" where
  "claimLabel clusterId j labels =
     (if labels ! j = Unset \<or> labels ! j = Lab (- 1) then labels[j := Lab clusterId] else labels)"

lemma count_unvisited_less:
  "j < length vs \<Longrightarrow> \<not> vs ! j \<Longrightarrow>
   length (filter Not (vs[j := True])) < length (filter Not vs)"
proof (induction vs arbitrary: j)
  case Nil
  then show ?case by simp
next
  case (Cons v vs)
  then show ?case by (cases j) auto
qed

text \<open>
  The \<open>while (stack.length)\<close> loop, one iteration per unfolding. \<open>visited\<close> and
  \<open>labels\<close> have one slot per row, so an index beyond \<open>visited\<close> is a row that does
  not exist: JavaScript would mark it visited and then fail in \<open>regionQuery\<close>.
\<close>

function expand ::
  "matrix \<Rightarrow> jsval \<Rightarrow> int \<Rightarrow> int \<Rightarrow> nat list \<Rightarrow> bool list \<Rightarrow> label list
   \<Rightarrow> error + (bool list \<times> label list)" where
  "expand X eps minPts clusterId [] visited labels = Inr (visited, labels)"
| "expand X eps minPts clusterId (j # stack) visited labels =
     (if length visited \<le> j then Inl TypeError
      else if \<not> visited ! j then
        expand X eps minPts clusterId
          (if minPts \<le> int (length (regionQuery X eps j)) + 1
           then pushNew (regionQuery X eps j) stack else stack)
          (visited[j := True]) (claimLabel clusterId j labels)
      else expand X eps minPts clusterId stack visited (claimLabel clusterId j labels))"
  by pat_completeness auto
termination
  by (relation "measures [\<lambda>(X, eps, minPts, c, stack, visited, labels). length (filter Not visited),
                          \<lambda>(X, eps, minPts, c, stack, visited, labels). length stack]")
     (auto simp: count_unvisited_less)

text \<open>The outer \<open>for\<close> loop over the row indices, on the state (visited, labels, clusterId).\<close>

fun scan ::
  "matrix \<Rightarrow> jsval \<Rightarrow> int \<Rightarrow> nat list \<Rightarrow> bool list \<times> label list \<times> int
   \<Rightarrow> error + (bool list \<times> label list \<times> int)" where
  "scan X eps minPts [] st = Inr st"
| "scan X eps minPts (i # is) (visited, labels, clusterId) =
     (if visited ! i then scan X eps minPts is (visited, labels, clusterId)
      else if int (length (regionQuery X eps i)) + 1 < minPts
        then scan X eps minPts is (visited[i := True], labels[i := Lab (- 1)], clusterId)
      else
        (case expand X eps minPts clusterId (regionQuery X eps i)
                (visited[i := True]) (labels[i := Lab clusterId]) of
           Inl e \<Rightarrow> Inl e
         | Inr (visited', labels') \<Rightarrow> scan X eps minPts is (visited', labels', clusterId + 1)))"

record summary =
  counts :: "label \<rightharpoonup> nat"

record result =
  labels :: "label list"
  corePoints :: "nat list"
  scaler :: scaler
  Xscaled :: matrix
  summary :: "summary option"

text \<open>The session kept in the global slot \<open>__dbscan._last\<close>.\<close>

record session =
  last_Xraw :: matrix
  last_Xscaled :: matrix
  last_labels :: "label list"
  last_corePoints :: "nat list"
  last_scaler :: scaler
  last_eps :: jsval
  last_minPts :: int
  last_summary :: summary

text \<open>\<open>labels.forEach((lbl) => (counts[lbl] = (counts[lbl] || 0) + 1))\<close>\<close>

definition count_labels :: "label list \<Rightarrow> (label \<rightharpoonup> nat)" where
  "count_labels ls =
     fold (\<lambda>lbl counts. counts(lbl \<mapsto> (case counts lbl of None \<Rightarrow> 0 | Some c \<Rightarrow> c) + 1))
          ls Map.empty"

text \<open>The default \<open>eps = 2.0\<close> applies when the argument is \<open>undefined\<close>.\<close>

fun default_eps :: "jsval \<Rightarrow> jsval" where
  "default_eps Undefined = Num 2"
| "default_eps eps = eps"

definition empty_result :: result where
  "empty_result =
     \<lparr>labels = [], corePoints = [], scaler = NoScaler, Xscaled = [], summary = None\<rparr>"

text \<open>
  \<open>dbscan\<close> takes the raw matrix (\<open>None\<close> when the argument is not an array),
  \<open>eps\<close>, \<open>minPts\<close> (an integer, given explicitly) and the global slot, and returns
  its result together with the slot.
\<close>

definition dbscan ::
  "matrix option \<Rightarrow> jsval \<Rightarrow> int \<Rightarrow> session option \<Rightarrow> error + (result \<times> session option)" where
  "dbscan Xraw eps0 minPts g =
     (case Xraw of
        None \<Rightarrow> Inr (empty_result, g)
      | Some Xr \<Rightarrow>
          if length Xr = 0 then Inr (empty_result, g)
          else
            let eps = default_eps eps0;
                sc = computeScaler (Some Xr);
                X = applyScaler Xr sc;
                n = length X
            in case scan X eps minPts [0..<n] (replicate n False, replicate n Unset, 0) of
                 Inl e \<Rightarrow> Inl e
               | Inr (visited, lbls, clusterId) \<Rightarrow>
                   let cps = filter (\<lambda>i. minPts \<le> int (length (regionQuery X eps i)) + 1) [0..<n];
                       sm = \<lparr>counts = count_labels lbls\<rparr>
                   in Inr (\<lparr>labels = lbls, corePoints = cps, scaler = sc, Xscaled = X,
                            summary = Some sm\<rparr>,
                           Some \<lparr>last_Xraw = Xr, last_Xscaled = X, last_labels = lbls,
                                 last_corePoints = cps, last_scaler = sc, last_eps = eps,
                                 last_minPts = minPts, last_summary = sm\<rparr>))"

section \<open>Assignment to the nearest core point\<close>

record best =
  idx :: int
  bdist :: jsval

record assignment =
  cluster :: label
  dist :: jsval

text \<open>\<open>labels[i]\<close>, \<open>undefined\<close> beyond the end.\<close>

definition label_at :: "label list \<Rightarrow> nat \<Rightarrow> label" where
  "label_at ls i = (if i < length ls then ls ! i else Unset)"

text \<open>
  \<open>Xraw || []\<close>, where \<open>None\<close> is a falsy \<open>Xraw\<close> (\<open>null\<close> or \<open>undefined\<close>);
  an \<open>Xraw\<close> that is truthy and not an array is outside the type.
\<close>

definition or_empty :: "matrix option \<Rightarrow> matrix" where
  "or_empty Xraw = (case Xraw of None \<Rightarrow> [] | Some X \<Rightarrow> X)"

text \<open>\<open>global.__dbscan?._last?.scaler || computeScaler(Xraw || [])\<close>\<close>

definition session_scaler :: "session option \<Rightarrow> matrix option \<Rightarrow> scaler" where
  "session_scaler g Xraw =
     (case g of
        None \<Rightarrow> computeScaler (Some (or_empty Xraw))
      | Some s \<Rightarrow> if last_scaler s = NoScaler then computeScaler (Some (or_empty Xraw))
                  else last_scaler s)"

text \<open>\<open>global.__dbscan?._last?.Xscaled || applyScaler(Xraw || [], scaler)\<close>\<close>

definition session_Xscaled :: "session option \<Rightarrow> matrix option \<Rightarrow> scaler \<Rightarrow> matrix" where
  "session_Xscaled g Xraw sc =
     (case g of None \<Rightarrow> applyScaler (or_empty Xraw) sc | Some s \<Rightarrow> last_Xscaled s)"

text \<open>The body of the loop over \<open>corePoints\<close>.\<close>

definition nearer :: "matrix \<Rightarrow> row \<Rightarrow> nat \<Rightarrow> best \<Rightarrow> best" where
  "nearer Xs newPtScaled i b =
     (if length Xs \<le> i then b
      else let d = euclidean (Xs ! i) newPtScaled
           in if js_lt d (bdist b) then \<lparr>idx = int i, bdist = d\<rparr> else b)"

definition assignByNearestCore ::
  "session option \<Rightarrow> matrix option \<Rightarrow> label list \<Rightarrow> nat list \<Rightarrow> jsval \<Rightarrow> row \<Rightarrow> assignment" where
  "assignByNearestCore g Xraw lbls cps eps newPoint =
     (let sc = session_scaler g Xraw;
          newPtScaled = applyScalerToRow newPoint sc;
          Xs = session_Xscaled g Xraw sc;
          b = fold (nearer Xs newPtScaled) cps \<lparr>idx = - 1, bdist = PInf\<rparr>
      in if idx b = - 1 \<or> js_lt eps (bdist b)
         then \<lparr>cluster = Lab (- 1), dist = bdist b\<rparr>
         else \<lparr>cluster = label_at lbls (nat (idx b)), dist = bdist b\<rparr>)"

section \<open>The scaler\<close>

lemma applyScalerToRow_malformed:
  "(\<nexists>m s. sc = Scaler (Arr m) (Arr s)) \<Longrightarrow> applyScalerToRow row sc = row"
  by (cases "(row, sc)" rule: applyScalerToRow.cases) auto

text \<open>
  C9. When the scaler argument is absent, or is not an object whose \<open>mean\<close> and
  \<open>std\<close> are both arrays, \<open>applyScaler\<close> returns the matrix row by row as it is.
  The model of \<open>applyScaler\<close> has no error value: on a matrix, neither branch of
  \<open>applyScalerToRow\<close> can throw.
\<close>

theorem applyScaler_malformed_identity:
  "(\<nexists>m s. sc = Scaler (Arr m) (Arr s)) \<Longrightarrow> applyScaler X sc = X"
  by (simp add: applyScaler_def applyScalerToRow_malformed)

theorem applyScaler_malformed_identity_witness:
  "applyScaler [[Num 3, Undefined], [NaN]] NoScaler = [[Num 3, Undefined], [NaN]]
   \<and> applyScaler [[Num 3, Undefined], [NaN]] (Scaler NotArray (Arr [Num 2]))
       = [[Num 3, Undefined], [NaN]]
   \<and> applyScaler [[Num 3, Undefined], [NaN]] (Scaler (Arr [Num 2]) NotArray)
       = [[Num 3, Undefined], [NaN]]"
  using applyScaler_malformed_identity [of NoScaler "[[Num 3, Undefined], [NaN]]"]
    applyScaler_malformed_identity [of "Scaler NotArray (Arr [Num 2])" "[[Num 3, Undefined], [NaN]]"]
    applyScaler_malformed_identity [of "Scaler (Arr [Num 2]) NotArray" "[[Num 3, Undefined], [NaN]]"]
  by simp

lemma std_entry_ok:
  "isFinite (if \<not> isFinite sd \<or> js_le sd (Num (1 / 10 ^ 8)) then Num 1 else sd) \<and>
   (if \<not> isFinite sd \<or> js_le sd (Num (1 / 10 ^ 8)) then Num 1 else sd) \<noteq> Num 0"
  by (cases sd) auto

text \<open>
  With a single row the column mean is the cell itself, so the deviation is \<open>0\<close>
  (or \<open>NaN\<close> for an infinite cell), and so is the raw standard deviation.
\<close>

lemma single_row_cell:
  "c = Number (js_or v (Num 0)) \<Longrightarrow>
   Math_sqrt (js_div (js_add (Num 0) (js_mul (js_sub c (js_div (js_add (Num 0) c) (Num 1)))
       (js_sub c (js_div (js_add (Num 0) c) (Num 1))))) (Num 1)) = Num 0 \<or>
   Math_sqrt (js_div (js_add (Num 0) (js_mul (js_sub c (js_div (js_add (Num 0) c) (Num 1)))
       (js_sub c (js_div (js_add (Num 0) c) (Num 1))))) (Num 1)) = NaN"
  by (cases v) (auto simp: js_or_def)

text \<open>
  C8. On a non-empty matrix \<open>computeScaler\<close> returns one \<open>std\<close> entry per column
  of the first row; every entry is a finite number and none is \<open>0\<close>, whatever the
  cells are (also \<open>NaN\<close>, \<open>undefined\<close> or infinite cells); on a single-row matrix
  every entry is \<open>1\<close>.
\<close>

theorem computeScaler_std:
  assumes "X \<noteq> []"
  shows "\<exists>mean std. computeScaler (Some X) = Scaler (Arr mean) (Arr std)
           \<and> length std = length (X ! 0)
           \<and> (\<forall>v \<in> set std. isFinite v \<and> v \<noteq> Num 0)
           \<and> (length X = 1 \<longrightarrow> (\<forall>v \<in> set std. v = Num 1))"
proof -
  define mean where
    "mean = map (\<lambda>j. js_div (column_sum X j) (Num (real (length X)))) [0..<length (X ! 0)]"
  define sd where
    "sd = (\<lambda>j. Math_sqrt (js_div (column_sqdev X mean j)
                                  (Num (real_of_int (max 1 (int (length X) - 1))))))"
  define std where
    "std = map (\<lambda>j. if \<not> isFinite (sd j) \<or> js_le (sd j) (Num (1 / 10 ^ 8)) then Num 1 else sd j)
               [0..<length (X ! 0)]"
  have eq: "computeScaler (Some X) = Scaler (Arr mean) (Arr std)"
    using assms by (simp add: computeScaler_def Let_def mean_def std_def sd_def)
  have len: "length std = length (X ! 0)"
    by (simp add: std_def)
  have fin: "\<forall>v \<in> set std. isFinite v \<and> v \<noteq> Num 0"
    using std_entry_ok by (auto simp: std_def)
  have one: "\<forall>v \<in> set std. v = Num 1" if l: "length X = 1"
  proof
    fix v assume "v \<in> set std"
    then obtain j where j: "j < length (X ! 0)"
      and v: "v = (if \<not> isFinite (sd j) \<or> js_le (sd j) (Num (1 / 10 ^ 8)) then Num 1 else sd j)"
      by (auto simp: std_def)
    from l have up: "[0..<length X] = [0]"
      by simp
    have "sd j = Num 0 \<or> sd j = NaN"
      using j l single_row_cell [OF refl, of "js_nth (X ! 0) j"]
      by (simp add: sd_def mean_def column_sqdev_def column_sum_def up Let_def)
    then show "v = Num 1"
      using v by auto
  qed
  show ?thesis
    using eq len fin one by blast
qed

theorem computeScaler_std_witness:
  "[[Num 5, Undefined, PInf]] \<noteq> [] \<and>
   computeScaler (Some [[Num 5, Undefined, PInf]])
     = Scaler (Arr [Num 5, Num 0, PInf]) (Arr [Num 1, Num 1, Num 1])"
  using computeScaler_std [of "[[Num 5, Undefined, PInf]]"]
  by (simp add: computeScaler_def column_sum_def column_sqdev_def js_nth_def js_or_def
      upt_conv_Cons Let_def)

section \<open>Degenerate input\<close>

text \<open>
  C10. Called with something that is not an array, or with the empty array, \<open>dbscan\<close>
  returns the empty result, which has no \<open>summary\<close> field, and leaves the global
  slot as it was: no session is installed, and a later \<open>assignByNearestCore\<close> reads
  the session that was there before.
\<close>

theorem dbscan_degenerate:
  assumes "Xraw = None \<or> Xraw = Some []"
  shows "\<exists>r g'. dbscan Xraw eps minPts g = Inr (r, g') \<and> g' = g
           \<and> r = \<lparr>labels = [], corePoints = [], scaler = NoScaler, Xscaled = [], summary = None\<rparr>
           \<and> summary r = None
           \<and> assignByNearestCore g' Xr lbls cps e p = assignByNearestCore g Xr lbls cps e p"
  using assms by (auto simp: dbscan_def empty_result_def)

theorem dbscan_degenerate_witness:
  "dbscan (Some []) (Num 2) 4
     (Some \<lparr>last_Xraw = [[Num 7]], last_Xscaled = [[Num 0]], last_labels = [Lab 0],
            last_corePoints = [0], last_scaler = Scaler (Arr [Num 7]) (Arr [Num 1]),
            last_eps = Num 2, last_minPts = 1,
            last_summary = \<lparr>counts = [Lab 0 \<mapsto> 1]\<rparr>\<rparr>)
   = Inr (\<lparr>labels = [], corePoints = [], scaler = NoScaler, Xscaled = [], summary = None\<rparr>,
          Some \<lparr>last_Xraw = [[Num 7]], last_Xscaled = [[Num 0]], last_labels = [Lab 0],
                last_corePoints = [0], last_scaler = Scaler (Arr [Num 7]) (Arr [Num 1]),
                last_eps = Num 2, last_minPts = 1,
                last_summary = \<lparr>counts = [Lab 0 \<mapsto> 1]\<rparr>\<rparr>)
   \<and> dbscan None (Num 2) 4 None
   = Inr (\<lparr>labels = [], corePoints = [], scaler = NoScaler, Xscaled = [], summary = None\<rparr>,
          None)"
  using dbscan_degenerate [of "Some []" "Num 2" 4
      "Some \<lparr>last_Xraw = [[Num 7]], last_Xscaled = [[Num 0]], last_labels = [Lab 0],
            last_corePoints = [0], last_scaler = Scaler (Arr [Num 7]) (Arr [Num 1]),
            last_eps = Num 2, last_minPts = 1,
            last_summary = \<lparr>counts = [Lab 0 \<mapsto> 1]\<rparr>\<rparr>"]
    dbscan_degenerate [of None "Num 2" 4 None]
  by simp

section \<open>The walk: invariants of the two loops\<close>

text \<open>
  The neighbourhood relation is symmetric, because \<open>(a - b)\<^sup>2 = (b - a)\<^sup>2\<close> also on
  the special values, and a point is never its own neighbour.
\<close>

lemma sq_diff_sym: "js_mul (js_sub x y) (js_sub x y) = js_mul (js_sub y x) (js_sub y x)"
  by (cases x; cases y) (auto simp: algebra_simps)

lemma euclidean_sym: "euclidean a b = euclidean b a"
  by (simp add: euclidean_def Let_def sq_diff_sym [of "Number (js_or (js_nth a _) (Num 0))"] max.commute)

lemma regionQuery_set:
  "set (regionQuery X eps i) = {j. j < length X \<and> i \<noteq> j \<and> js_le (euclidean (X ! i) (X ! j)) eps}"
  by (auto simp: regionQuery_def)

lemma regionQuery_less: "j \<in> set (regionQuery X eps i) \<Longrightarrow> j < length X"
  by (simp add: regionQuery_set)

lemma regionQuery_irrefl: "i \<notin> set (regionQuery X eps i)"
  by (simp add: regionQuery_set)

lemma regionQuery_sym: "j \<in> set (regionQuery X eps i) \<Longrightarrow> i < length X \<Longrightarrow> i \<in> set (regionQuery X eps j)"
  by (auto simp: regionQuery_set euclidean_sym [of "X ! i"])

lemma pushNew_set: "set (pushNew ns st) = set ns \<union> set st"
  unfolding pushNew_def by (induction ns arbitrary: st) auto

lemma claimLabel_length: "length (claimLabel c j ls) = length ls"
  by (simp add: claimLabel_def)

lemma claimLabel_nth:
  "a < length ls \<Longrightarrow> claimLabel c j ls ! a =
     (if a = j \<and> (ls ! j = Unset \<or> ls ! j = Lab (- 1)) then Lab c else ls ! a)"
  by (auto simp: claimLabel_def nth_list_update)

text \<open>
  \<open>isCore\<close> is the test \<open>neighbors.length + 1 >= minPts\<close>. The invariant of the
  \<open>while\<close> loop, for the cluster \<open>cid\<close> under expansion: the arrays have one slot
  per row and the worklist holds row indices; a slot is labelled exactly when the point
  is visited; a point labelled \<open>-1\<close> is not a core point; the labels in use are
  \<open>-1\<close> and every id from \<open>0\<close> to \<open>cid\<close>; and a visited core point agrees with
  each neighbouring core point on the label, or that neighbour is still unlabelled and
  waits on the worklist of the current cluster.
\<close>

definition isCore :: "matrix \<Rightarrow> jsval \<Rightarrow> int \<Rightarrow> nat \<Rightarrow> bool" where
  "isCore X eps minPts a = (minPts \<le> int (length (regionQuery X eps a)) + 1)"

definition shape :: "matrix \<Rightarrow> nat list \<Rightarrow> bool list \<Rightarrow> label list \<Rightarrow> bool" where
  "shape X stack v ls = (length v = length X \<and> length ls = length X \<and> (\<forall>j \<in> set stack. j < length X))"

definition set_iff_visited :: "bool list \<Rightarrow> label list \<Rightarrow> bool" where
  "set_iff_visited v ls = (\<forall>a < length ls. v ! a \<longleftrightarrow> ls ! a \<noteq> Unset)"

definition noise_not_core :: "matrix \<Rightarrow> jsval \<Rightarrow> int \<Rightarrow> label list \<Rightarrow> bool" where
  "noise_not_core X eps minPts ls = (\<forall>a < length ls. ls ! a = Lab (- 1) \<longrightarrow> \<not> isCore X eps minPts a)"

definition ids_upto :: "int \<Rightarrow> label list \<Rightarrow> bool" where
  "ids_upto c ls = ((\<forall>a < length ls. \<forall>k. ls ! a = Lab k \<longrightarrow> k = - 1 \<or> (0 \<le> k \<and> k \<le> c))
                    \<and> (\<forall>k. 0 \<le> k \<and> k \<le> c \<longrightarrow> Lab k \<in> set ls))"

definition cores_agree ::
  "matrix \<Rightarrow> jsval \<Rightarrow> int \<Rightarrow> int \<Rightarrow> nat list \<Rightarrow> bool list \<Rightarrow> label list \<Rightarrow> bool" where
  "cores_agree X eps minPts cid stack v ls =
     (\<forall>a < length X. \<forall>b \<in> set (regionQuery X eps a).
        isCore X eps minPts a \<and> isCore X eps minPts b \<and> v ! a \<longrightarrow>
        ls ! b = ls ! a \<or> (ls ! a = Lab cid \<and> ls ! b = Unset \<and> b \<in> set stack))"

definition walk_inv ::
  "matrix \<Rightarrow> jsval \<Rightarrow> int \<Rightarrow> int \<Rightarrow> nat list \<Rightarrow> bool list \<Rightarrow> label list \<Rightarrow> bool" where
  "walk_inv X eps minPts cid stack v ls =
     (shape X stack v ls \<and> 0 \<le> cid \<and> set_iff_visited v ls \<and> noise_not_core X eps minPts ls
      \<and> ids_upto cid ls \<and> cores_agree X eps minPts cid stack v ls)"

text \<open>One iteration of the \<open>while\<close> loop keeps the invariant, on either branch.\<close>

lemma step_unvisited:
  assumes inv: "walk_inv X eps minPts cid (j # stack) v ls" and nv: "\<not> v ! j"
  shows "walk_inv X eps minPts cid
           (if minPts \<le> int (length (regionQuery X eps j)) + 1
            then pushNew (regionQuery X eps j) stack else stack)
           (v[j := True]) (claimLabel cid j ls)"
proof -
  let ?st = "if minPts \<le> int (length (regionQuery X eps j)) + 1
            then pushNew (regionQuery X eps j) stack else stack"
  from inv have sh: "shape X (j # stack) v ls" and c0: "0 \<le> cid" and sv: "set_iff_visited v ls"
    and nn: "noise_not_core X eps minPts ls" and ids: "ids_upto cid ls"
    and ag: "cores_agree X eps minPts cid (j # stack) v ls"
    by (simp_all add: walk_inv_def)
  from sh have j: "j < length X" and lv: "length v = length X" and ll: "length ls = length X"
    and stk: "\<forall>i \<in> set stack. i < length X"
    by (simp_all add: shape_def)
  from sv nv j ll have uj: "ls ! j = Unset" by (simp add: set_iff_visited_def)
  then have cl: "claimLabel cid j ls = ls[j := Lab cid]" by (simp add: claimLabel_def)
  have sub: "set stack \<subseteq> set ?st" by (simp add: pushNew_set)
  have 1: "shape X ?st (v[j := True]) (claimLabel cid j ls)"
    using lv ll stk by (auto simp: shape_def cl pushNew_set regionQuery_less)
  have 2: "set_iff_visited (v[j := True]) (claimLabel cid j ls)"
    using sv lv ll j by (auto simp: set_iff_visited_def cl nth_list_update)
  have 3: "noise_not_core X eps minPts (claimLabel cid j ls)"
    using nn c0 j ll by (auto simp: noise_not_core_def cl nth_list_update)
  have 4: "ids_upto cid (claimLabel cid j ls)"
  proof -
    have "\<forall>k. Lab k \<in> set ls \<longrightarrow> Lab k \<in> set (ls[j := Lab cid])"
    proof (intro allI impI)
      fix k assume "Lab k \<in> set ls"
      then obtain a where a: "a < length ls" "ls ! a = Lab k" by (auto simp: in_set_conv_nth)
      with uj have "a \<noteq> j" by auto
      with a have "ls[j := Lab cid] ! a = Lab k" by simp
      with a(1) show "Lab k \<in> set (ls[j := Lab cid])"
        by (metis length_list_update nth_mem)
    qed
    then show ?thesis
      using ids c0 j ll by (auto simp: ids_upto_def cl nth_list_update)
  qed
  have 5: "cores_agree X eps minPts cid ?st (v[j := True]) (claimLabel cid j ls)"
    unfolding cores_agree_def
  proof (intro allI impI ballI)
    fix a b
    assume a: "a < length X" and b: "b \<in> set (regionQuery X eps a)"
      and h: "isCore X eps minPts a \<and> isCore X eps minPts b \<and> v[j := True] ! a"
    from b have bl: "b < length X" and ab: "a \<noteq> b"
      using regionQuery_irrefl [of b X eps] by (auto simp: regionQuery_less)
    from b a have ba: "a \<in> set (regionQuery X eps b)" by (rule regionQuery_sym)
    let ?ls = "claimLabel cid j ls"
    show "?ls ! b = ?ls ! a \<or> (?ls ! a = Lab cid \<and> ?ls ! b = Unset \<and> b \<in> set ?st)"
    proof (cases "a = j")
      case True
      then have la: "?ls ! a = Lab cid" using j ll by (simp add: cl)
      from True ab have lb: "?ls ! b = ls ! b" by (simp add: cl)
      from True h b have bst: "b \<in> set ?st" by (simp add: isCore_def pushNew_set)
      show ?thesis
      proof (cases "ls ! b = Unset")
        case True
        with la lb bst show ?thesis by simp
      next
        case False
        with sv bl ll have "v ! b" by (simp add: set_iff_visited_def)
        with ag bl ba h have "ls ! a = ls ! b \<or> (ls ! b = Lab cid \<and> ls ! a = Unset \<and> a \<in> set (j # stack))"
          unfolding cores_agree_def by blast
        with \<open>a = j\<close> uj False have "ls ! b = Lab cid" by auto
        with la lb show ?thesis by simp
      qed
    next
      case False
      with h lv a have va: "v ! a" by simp
      with sv a ll have na: "ls ! a \<noteq> Unset" by (simp add: set_iff_visited_def)
      from False have la: "?ls ! a = ls ! a" by (simp add: cl)
      from ag a b h va have d: "ls ! b = ls ! a \<or> (ls ! a = Lab cid \<and> ls ! b = Unset \<and> b \<in> set (j # stack))"
        unfolding cores_agree_def by blast
      show ?thesis
      proof (cases "b = j")
        case True
        with d uj na have "ls ! a = Lab cid" by auto
        moreover from True j ll have "?ls ! b = Lab cid" by (simp add: cl)
        ultimately show ?thesis using la by simp
      next
        case False
        then have "?ls ! b = ls ! b" by (simp add: cl)
        with d la False sub show ?thesis by auto
      qed
    qed
  qed
  show ?thesis using 1 2 3 4 5 c0 by (simp add: walk_inv_def)
qed


lemma step_visited:
  assumes inv: "walk_inv X eps minPts cid (j # stack) v ls" and vj: "v ! j"
  shows "walk_inv X eps minPts cid stack v (claimLabel cid j ls)"
proof -
  from inv have sh: "shape X (j # stack) v ls" and c0: "0 \<le> cid" and sv: "set_iff_visited v ls"
    and nn: "noise_not_core X eps minPts ls" and ids: "ids_upto cid ls"
    and ag: "cores_agree X eps minPts cid (j # stack) v ls"
    by (simp_all add: walk_inv_def)
  from sh have j: "j < length X" and lv: "length v = length X" and ll: "length ls = length X"
    and stk: "\<forall>i \<in> set stack. i < length X"
    by (simp_all add: shape_def)
  from sv vj j ll have sj: "ls ! j \<noteq> Unset" by (simp add: set_iff_visited_def)
  let ?ls = "claimLabel cid j ls"
  have nth: "\<And>a. a < length X \<Longrightarrow> ?ls ! a = (if a = j \<and> ls ! j = Lab (- 1) then Lab cid else ls ! a)"
    using sj ll by (simp add: claimLabel_nth)
  have 1: "shape X stack v ?ls"
    using lv ll stk by (simp add: shape_def claimLabel_length)
  have 2: "set_iff_visited v ?ls"
    using sv ll by (auto simp: set_iff_visited_def claimLabel_length nth)
  have 3: "noise_not_core X eps minPts ?ls"
    using nn c0 ll by (auto simp: noise_not_core_def claimLabel_length nth)
  have 4: "ids_upto cid ?ls"
  proof -
    have "\<forall>k. 0 \<le> k \<and> Lab k \<in> set ls \<longrightarrow> Lab k \<in> set ?ls"
    proof (intro allI impI)
      fix k assume k: "0 \<le> k \<and> Lab k \<in> set ls"
      then obtain a where a: "a < length ls" "ls ! a = Lab k" by (auto simp: in_set_conv_nth)
      with k ll have "?ls ! a = Lab k" by (auto simp: nth)
      with a(1) show "Lab k \<in> set ?ls"
        by (metis claimLabel_length nth_mem)
    qed
    then show ?thesis
      using ids c0 ll by (auto simp: ids_upto_def claimLabel_length nth)
  qed
  have 5: "cores_agree X eps minPts cid stack v ?ls"
    unfolding cores_agree_def
  proof (intro allI impI ballI)
    fix a b
    assume a: "a < length X" and b: "b \<in> set (regionQuery X eps a)"
      and h: "isCore X eps minPts a \<and> isCore X eps minPts b \<and> v ! a"
    from b have bl: "b < length X" by (simp add: regionQuery_less)
    from h nn a ll have a1: "ls ! a \<noteq> Lab (- 1)" by (auto simp: noise_not_core_def)
    from h nn bl ll have b1: "ls ! b \<noteq> Lab (- 1)" by (auto simp: noise_not_core_def)
    from a a1 have la: "?ls ! a = ls ! a" by (auto simp: nth)
    from bl b1 have lb: "?ls ! b = ls ! b" by (auto simp: nth)
    from ag a b h have "ls ! b = ls ! a \<or> (ls ! a = Lab cid \<and> ls ! b = Unset \<and> b \<in> set (j # stack))"
      unfolding cores_agree_def by blast
    with sj la lb show "?ls ! b = ?ls ! a \<or> (?ls ! a = Lab cid \<and> ?ls ! b = Unset \<and> b \<in> set stack)"
      by auto
  qed
  show ?thesis using 1 2 3 4 5 c0 by (simp add: walk_inv_def)
qed

lemma walk_inv_head: "walk_inv X eps minPts cid (j # stack) v ls \<Longrightarrow> j < length v"
  by (simp add: walk_inv_def shape_def)

lemma walk_inv_length: "walk_inv X eps minPts cid stack v ls \<Longrightarrow> length v = length X"
  by (simp add: walk_inv_def shape_def)

lemma expand_inv:
  "walk_inv X eps minPts cid stack v ls \<Longrightarrow>
   \<exists>v' ls'. expand X eps minPts cid stack v ls = Inr (v', ls')
      \<and> walk_inv X eps minPts cid [] v' ls' \<and> (\<forall>a < length X. v ! a \<longrightarrow> v' ! a)"
proof (induction X eps minPts cid stack v ls rule: expand.induct)
  case (1 X eps minPts clusterId visited ls)
  then show ?case by simp
next
  case (2 X eps minPts clusterId j stack visited ls)
  from "2.prems" have j: "j < length visited" by (rule walk_inv_head)
  from "2.prems" have lv: "length visited = length X" by (rule walk_inv_length)
  show ?case
  proof (cases "visited ! j")
    case True
    from step_visited [OF "2.prems" True] "2.IH"(2) j True
    show ?thesis by simp
  next
    case False
    from step_unvisited [OF "2.prems" False] "2.IH"(1) j False
    obtain v' ls' where r: "expand X eps minPts clusterId
          (if minPts \<le> int (length (regionQuery X eps j)) + 1
           then pushNew (regionQuery X eps j) stack else stack)
          (visited[j := True]) (claimLabel clusterId j ls) = Inr (v', ls')"
      and w: "walk_inv X eps minPts clusterId [] v' ls'"
      and m: "\<forall>a < length X. visited[j := True] ! a \<longrightarrow> v' ! a"
      by (metis not_le)
    have "\<forall>a < length X. visited ! a \<longrightarrow> v' ! a"
      using m lv by (metis nth_list_update_neq False)
    with r w j False show ?thesis by simp
  qed
qed

lemma expand_keeps:
  "expand X eps minPts cid stack v ls = Inr (v', ls') \<Longrightarrow> a < length ls \<Longrightarrow>
   ls' ! a = ls ! a \<or> ((ls ! a = Unset \<or> ls ! a = Lab (- 1)) \<and> ls' ! a = Lab cid)"
proof (induction X eps minPts cid stack v ls rule: expand.induct)
  case (1 X eps minPts clusterId visited ls)
  then show ?case by simp
next
  case (2 X eps minPts clusterId j stack visited ls)
  have c: "claimLabel clusterId j ls ! a = ls ! a \<or>
       ((ls ! a = Unset \<or> ls ! a = Lab (- 1)) \<and> claimLabel clusterId j ls ! a = Lab clusterId)"
    using "2.prems"(2) by (auto simp: claimLabel_nth)
  have l: "a < length (claimLabel clusterId j ls)"
    using "2.prems"(2) by (simp add: claimLabel_length)
  from "2.prems"(1) have j: "\<not> length visited \<le> j" by (auto split: if_splits)
  show ?case
  proof (cases "visited ! j")
    case True
    with "2.prems"(1) j have "expand X eps minPts clusterId stack visited (claimLabel clusterId j ls) = Inr (v', ls')"
      by simp
    from "2.IH"(2) [OF j _ this l] True c show ?thesis by auto
  next
    case False
    with "2.prems"(1) j have "expand X eps minPts clusterId
          (if minPts \<le> int (length (regionQuery X eps j)) + 1
           then pushNew (regionQuery X eps j) stack else stack)
          (visited[j := True]) (claimLabel clusterId j ls) = Inr (v', ls')"
      by simp
    from "2.IH"(1) [OF j False this l] c show ?thesis by auto
  qed
qed


text \<open>
  Between two iterations of the outer loop the same holds with an empty worklist, for
  the ids below the counter \<open>c\<close>.
\<close>

definition scan_inv ::
  "matrix \<Rightarrow> jsval \<Rightarrow> int \<Rightarrow> bool list \<Rightarrow> label list \<Rightarrow> int \<Rightarrow> bool" where
  "scan_inv X eps minPts v ls c =
     (shape X [] v ls \<and> 0 \<le> c \<and> set_iff_visited v ls \<and> noise_not_core X eps minPts ls
      \<and> ids_upto (c - 1) ls \<and> cores_agree X eps minPts c [] v ls)"

lemma set_update_keeps:
  assumes "ls ! i = Unset" "Lab k \<in> set ls"
  shows "Lab k \<in> set (ls[i := l])"
proof -
  from assms(2) obtain a where a: "a < length ls" "ls ! a = Lab k"
    by (auto simp: in_set_conv_nth)
  with assms(1) have "a \<noteq> i" by auto
  with a have "ls[i := l] ! a = Lab k" by simp
  with a(1) show ?thesis by (metis length_list_update nth_mem)
qed

lemma scan_seed:
  assumes inv: "scan_inv X eps minPts v ls c" and i: "i < length X" and nv: "\<not> v ! i"
    and core: "isCore X eps minPts i"
  shows "walk_inv X eps minPts c (regionQuery X eps i) (v[i := True]) (ls[i := Lab c])"
proof -
  from inv have lv: "length v = length X" and ll: "length ls = length X" and c0: "0 \<le> c"
    and sv: "set_iff_visited v ls" and nn: "noise_not_core X eps minPts ls"
    and ids: "ids_upto (c - 1) ls" and ag: "cores_agree X eps minPts c [] v ls"
    by (simp_all add: scan_inv_def shape_def)
  from sv nv i ll have ui: "ls ! i = Unset" by (simp add: set_iff_visited_def)
  have 1: "shape X (regionQuery X eps i) (v[i := True]) (ls[i := Lab c])"
    using lv ll by (simp add: shape_def regionQuery_less)
  have 2: "set_iff_visited (v[i := True]) (ls[i := Lab c])"
    using sv lv ll i by (auto simp: set_iff_visited_def nth_list_update)
  have 3: "noise_not_core X eps minPts (ls[i := Lab c])"
    using nn c0 i ll by (auto simp: noise_not_core_def nth_list_update)
  have 4: "ids_upto c (ls[i := Lab c])"
    unfolding ids_upto_def
  proof (intro conjI allI impI)
    fix a k assume "a < length (ls[i := Lab c])" "ls[i := Lab c] ! a = Lab k"
    then show "k = - 1 \<or> (0 \<le> k \<and> k \<le> c)"
      using ids c0 by (cases "a = i") (auto simp: ids_upto_def)
  next
    fix k assume k: "0 \<le> k \<and> k \<le> c"
    show "Lab k \<in> set (ls[i := Lab c])"
    proof (cases "k = c")
      case True
      with i ll show ?thesis by (simp add: set_update_memI)
    next
      case False
      with k ids have "Lab k \<in> set ls" by (simp add: ids_upto_def)
      with ui show ?thesis by (rule set_update_keeps)
    qed
  qed
  have 5: "cores_agree X eps minPts c (regionQuery X eps i) (v[i := True]) (ls[i := Lab c])"
    unfolding cores_agree_def
  proof (intro allI impI ballI)
    fix a b
    assume a: "a < length X" and b: "b \<in> set (regionQuery X eps a)"
      and h: "isCore X eps minPts a \<and> isCore X eps minPts b \<and> v[i := True] ! a"
    from b have bl: "b < length X" and ab: "a \<noteq> b"
      using regionQuery_irrefl [of b X eps] by (auto simp: regionQuery_less)
    from b a have ba: "a \<in> set (regionQuery X eps b)" by (rule regionQuery_sym)
    let ?ls = "ls[i := Lab c]"
    show "?ls ! b = ?ls ! a \<or> (?ls ! a = Lab c \<and> ?ls ! b = Unset \<and> b \<in> set (regionQuery X eps i))"
    proof (cases "a = i")
      case True
      then have la: "?ls ! a = Lab c" using i ll by simp
      from True ab have lb: "?ls ! b = ls ! b" by simp
      show ?thesis
      proof (cases "ls ! b = Unset")
        case True
        with la lb b \<open>a = i\<close> show ?thesis by simp
      next
        case False
        with sv bl ll have "v ! b" by (simp add: set_iff_visited_def)
        with ag bl ba h have "ls ! a = ls ! b"
          unfolding cores_agree_def by fastforce
        with \<open>a = i\<close> ui False show ?thesis by simp
      qed
    next
      case False
      with h lv a have va: "v ! a" by simp
      with sv a ll have na: "ls ! a \<noteq> Unset" by (simp add: set_iff_visited_def)
      from ag a b h va have d: "ls ! b = ls ! a"
        unfolding cores_agree_def by fastforce
      with na ui have "b \<noteq> i" by auto
      with False d show ?thesis by simp
    qed
  qed
  show ?thesis using 1 2 3 4 5 c0 by (simp add: walk_inv_def)
qed

lemma scan_noise:
  assumes inv: "scan_inv X eps minPts v ls c" and i: "i < length X" and nv: "\<not> v ! i"
    and core: "\<not> isCore X eps minPts i"
  shows "scan_inv X eps minPts (v[i := True]) (ls[i := Lab (- 1)]) c"
proof -
  from inv have lv: "length v = length X" and ll: "length ls = length X" and c0: "0 \<le> c"
    and sv: "set_iff_visited v ls" and nn: "noise_not_core X eps minPts ls"
    and ids: "ids_upto (c - 1) ls" and ag: "cores_agree X eps minPts c [] v ls"
    by (simp_all add: scan_inv_def shape_def)
  from sv nv i ll have ui: "ls ! i = Unset" by (simp add: set_iff_visited_def)
  have 1: "shape X [] (v[i := True]) (ls[i := Lab (- 1)])"
    using lv ll by (simp add: shape_def)
  have 2: "set_iff_visited (v[i := True]) (ls[i := Lab (- 1)])"
    using sv lv ll i by (auto simp: set_iff_visited_def nth_list_update)
  have 3: "noise_not_core X eps minPts (ls[i := Lab (- 1)])"
    using nn core i ll by (auto simp: noise_not_core_def nth_list_update)
  have 4: "ids_upto (c - 1) (ls[i := Lab (- 1)])"
    unfolding ids_upto_def
  proof (intro conjI allI impI)
    fix a k assume "a < length (ls[i := Lab (- 1)])" "ls[i := Lab (- 1)] ! a = Lab k"
    then show "k = - 1 \<or> (0 \<le> k \<and> k \<le> c - 1)"
      using ids by (cases "a = i") (auto simp: ids_upto_def)
  next
    fix k assume k: "0 \<le> k \<and> k \<le> c - 1"
    with ids have "Lab k \<in> set ls" by (simp add: ids_upto_def)
    with ui show "Lab k \<in> set (ls[i := Lab (- 1)])" by (rule set_update_keeps)
  qed
  have 5: "cores_agree X eps minPts c [] (v[i := True]) (ls[i := Lab (- 1)])"
    unfolding cores_agree_def
  proof (intro allI impI ballI)
    fix a b
    assume a: "a < length X" and b: "b \<in> set (regionQuery X eps a)"
      and h: "isCore X eps minPts a \<and> isCore X eps minPts b \<and> v[i := True] ! a"
    from h core have ai: "a \<noteq> i" and bi: "b \<noteq> i" by auto
    with h have "v ! a" by simp
    with ag a b h have "ls ! b = ls ! a" unfolding cores_agree_def by fastforce
    with ai bi show "ls[i := Lab (- 1)] ! b = ls[i := Lab (- 1)] ! a \<or>
        (ls[i := Lab (- 1)] ! a = Lab c \<and> ls[i := Lab (- 1)] ! b = Unset \<and> b \<in> set [])"
      by simp
  qed
  show ?thesis using 1 2 3 4 5 c0 by (simp add: scan_inv_def)
qed

lemma scan_next:
  assumes "walk_inv X eps minPts c [] v ls"
  shows "scan_inv X eps minPts v ls (c + 1)"
  using assms by (auto simp: walk_inv_def scan_inv_def cores_agree_def)

lemma scan_inv_run:
  "scan_inv X eps minPts v ls c \<Longrightarrow> \<forall>i \<in> set is. i < length X \<Longrightarrow>
   \<exists>v' ls' c'. scan X eps minPts is (v, ls, c) = Inr (v', ls', c')
      \<and> scan_inv X eps minPts v' ls' c'
      \<and> (\<forall>a < length X. v ! a \<longrightarrow> v' ! a)
      \<and> (\<forall>i \<in> set is. v' ! i)
      \<and> (\<forall>a < length X. \<forall>k. ls ! a = Lab k \<and> 0 \<le> k \<longrightarrow> ls' ! a = Lab k)"
proof (induction "is" arbitrary: v ls c)
  case Nil
  then show ?case by simp
next
  case (Cons i "is")
  from Cons.prems have i: "i < length X" and rest: "\<forall>i \<in> set is. i < length X" by simp_all
  from Cons.prems(1) have lv: "length v = length X" and ll: "length ls = length X"
    and sv: "set_iff_visited v ls"
    by (simp_all add: scan_inv_def shape_def)
  show ?case
  proof (cases "v ! i")
    case True
    from Cons.IH [OF Cons.prems(1) rest] obtain v' ls' c' where
      r: "scan X eps minPts is (v, ls, c) = Inr (v', ls', c')" "scan_inv X eps minPts v' ls' c'"
        "\<forall>a < length X. v ! a \<longrightarrow> v' ! a" "\<forall>i \<in> set is. v' ! i"
        "\<forall>a < length X. \<forall>k. ls ! a = Lab k \<and> 0 \<le> k \<longrightarrow> ls' ! a = Lab k"
      by blast
    with True i show ?thesis by auto
  next
    case False
    with sv i ll have ui: "ls ! i = Unset" by (simp add: set_iff_visited_def)
    show ?thesis
    proof (cases "isCore X eps minPts i")
      case nc: False
      from Cons.IH [OF scan_noise [OF Cons.prems(1) i False nc] rest] obtain v' ls' c' where
        r: "scan X eps minPts is (v[i := True], ls[i := Lab (- 1)], c) = Inr (v', ls', c')"
          "scan_inv X eps minPts v' ls' c'"
          "\<forall>a < length X. v[i := True] ! a \<longrightarrow> v' ! a" "\<forall>i \<in> set is. v' ! i"
          "\<forall>a < length X. \<forall>k. ls[i := Lab (- 1)] ! a = Lab k \<and> 0 \<le> k \<longrightarrow> ls' ! a = Lab k"
        by blast
      from r(3) i lv have vi: "v' ! i" by simp
      from r(3) have mono: "\<forall>a < length X. v ! a \<longrightarrow> v' ! a"
        by (metis False nth_list_update_neq)
      from r(5) ui have keep: "\<forall>a < length X. \<forall>k. ls ! a = Lab k \<and> 0 \<le> k \<longrightarrow> ls' ! a = Lab k"
        by (metis label.distinct(1) nth_list_update_neq)
      from nc False r(1) have "scan X eps minPts (i # is) (v, ls, c) = Inr (v', ls', c')"
        by (simp add: isCore_def not_le)
      with r(2,4) vi mono keep show ?thesis by auto
    next
      case cr: True
      from expand_inv [OF scan_seed [OF Cons.prems(1) i False cr]] obtain v1 ls1 where
        e: "expand X eps minPts c (regionQuery X eps i) (v[i := True]) (ls[i := Lab c]) = Inr (v1, ls1)"
          "walk_inv X eps minPts c [] v1 ls1" "\<forall>a < length X. v[i := True] ! a \<longrightarrow> v1 ! a"
        by blast
      from Cons.IH [OF scan_next [OF e(2)] rest] obtain v' ls' c' where
        r: "scan X eps minPts is (v1, ls1, c + 1) = Inr (v', ls', c')"
          "scan_inv X eps minPts v' ls' c'"
          "\<forall>a < length X. v1 ! a \<longrightarrow> v' ! a" "\<forall>i \<in> set is. v' ! i"
          "\<forall>a < length X. \<forall>k. ls1 ! a = Lab k \<and> 0 \<le> k \<longrightarrow> ls' ! a = Lab k"
        by blast
      from e(3) r(3) i lv have vi: "v' ! i" by simp
      from e(3) r(3) have mono: "\<forall>a < length X. v ! a \<longrightarrow> v' ! a"
        by (metis False nth_list_update_neq)
      have keep: "\<forall>a < length X. \<forall>k. ls ! a = Lab k \<and> 0 \<le> k \<longrightarrow> ls' ! a = Lab k"
      proof (intro allI impI)
        fix a k assume a: "a < length X" and k: "ls ! a = Lab k \<and> 0 \<le> k"
        with ui have "a \<noteq> i" by auto
        with k have "ls[i := Lab c] ! a = Lab k" by simp
        moreover from expand_keeps [OF e(1), of a] a ll
        have "ls1 ! a = ls[i := Lab c] ! a \<or>
            ((ls[i := Lab c] ! a = Unset \<or> ls[i := Lab c] ! a = Lab (- 1)) \<and> ls1 ! a = Lab c)"
          by simp
        ultimately have "ls1 ! a = Lab k" using k by auto
        with r(5) a k show "ls' ! a = Lab k" by blast
      qed
      from cr False e(1) r(1) have "scan X eps minPts (i # is) (v, ls, c) = Inr (v', ls', c')"
        by (simp add: isCore_def not_less)
      with r(2,4) vi mono keep show ?thesis by auto
    qed
  qed
qed

lemma scan_inv_init:
  "scan_inv X eps minPts (replicate (length X) False) (replicate (length X) Unset) 0"
  by (auto simp: scan_inv_def shape_def set_iff_visited_def noise_not_core_def ids_upto_def
      cores_agree_def)

section \<open>Results of a clustering run\<close>

text \<open>
  On a non-empty matrix the outer loop returns, \<open>dbscan\<close> does not throw, and the
  invariant holds for the labels it returns, with every point visited.
\<close>

lemma dbscan_run:
  assumes ne: "Xr \<noteq> []"
  defines "X \<equiv> applyScaler Xr (computeScaler (Some Xr))"
  shows "\<exists>v ls c.
     scan X (default_eps eps0) minPts [0..<length X]
          (replicate (length X) False, replicate (length X) Unset, 0) = Inr (v, ls, c)
     \<and> scan_inv X (default_eps eps0) minPts v ls c
     \<and> (\<forall>i < length X. v ! i)
     \<and> dbscan (Some Xr) eps0 minPts g =
         Inr (\<lparr>labels = ls,
               corePoints = filter (\<lambda>i. minPts \<le> int (length (regionQuery X (default_eps eps0) i)) + 1)
                                   [0..<length X],
               scaler = computeScaler (Some Xr), Xscaled = X,
               summary = Some \<lparr>counts = count_labels ls\<rparr>\<rparr>,
              Some \<lparr>last_Xraw = Xr, last_Xscaled = X, last_labels = ls,
                    last_corePoints =
                      filter (\<lambda>i. minPts \<le> int (length (regionQuery X (default_eps eps0) i)) + 1)
                             [0..<length X],
                    last_scaler = computeScaler (Some Xr), last_eps = default_eps eps0,
                    last_minPts = minPts, last_summary = \<lparr>counts = count_labels ls\<rparr>\<rparr>)"
proof -
  have "\<forall>i \<in> set [0..<length X]. i < length X"
    by simp
  from scan_inv_run [OF scan_inv_init this, of "default_eps eps0" minPts]
  obtain v ls c where
    r: "scan X (default_eps eps0) minPts [0..<length X]
          (replicate (length X) False, replicate (length X) Unset, 0) = Inr (v, ls, c)"
      "scan_inv X (default_eps eps0) minPts v ls c" "\<forall>i \<in> set [0..<length X]. v ! i"
    by blast
  from r(3) have all: "\<forall>i < length X. v ! i"
    by simp
  have "dbscan (Some Xr) eps0 minPts g =
         Inr (\<lparr>labels = ls,
               corePoints = filter (\<lambda>i. minPts \<le> int (length (regionQuery X (default_eps eps0) i)) + 1)
                                   [0..<length X],
               scaler = computeScaler (Some Xr), Xscaled = X,
               summary = Some \<lparr>counts = count_labels ls\<rparr>\<rparr>,
              Some \<lparr>last_Xraw = Xr, last_Xscaled = X, last_labels = ls,
                    last_corePoints =
                      filter (\<lambda>i. minPts \<le> int (length (regionQuery X (default_eps eps0) i)) + 1)
                             [0..<length X],
                    last_scaler = computeScaler (Some Xr), last_eps = default_eps eps0,
                    last_minPts = minPts, last_summary = \<lparr>counts = count_labels ls\<rparr>\<rparr>)"
    using ne r(1) unfolding dbscan_def X_def by (simp add: Let_def)
  with r(1,2) all show ?thesis
    by blast
qed

lemma dbscan_cases:
  assumes "dbscan Xraw eps0 minPts g = Inr (r, g')"
  obtains (degenerate) "Xraw = None \<or> Xraw = Some []" "r = empty_result" "g' = g"
  | (run) Xr v c where "Xraw = Some Xr" "Xr \<noteq> []"
      "Xscaled r = applyScaler Xr (computeScaler (Some Xr))"
      "length (Xscaled r) = length Xr"
      "scaler r = computeScaler (Some Xr)"
      "scan_inv (Xscaled r) (default_eps eps0) minPts v (labels r) c"
      "\<forall>i < length (Xscaled r). v ! i"
      "corePoints r =
         filter (\<lambda>i. minPts \<le> int (length (regionQuery (Xscaled r) (default_eps eps0) i)) + 1)
                [0..<length (Xscaled r)]"
      "g' = Some \<lparr>last_Xraw = Xr, last_Xscaled = Xscaled r, last_labels = labels r,
                    last_corePoints = corePoints r,
                    last_scaler = scaler r, last_eps = default_eps eps0,
                    last_minPts = minPts, last_summary = \<lparr>counts = count_labels (labels r)\<rparr>\<rparr>"
proof (cases "Xraw = None \<or> Xraw = Some []")
  case True
  with assms have "r = empty_result" "g' = g"
    by (auto simp: dbscan_def)
  with True show ?thesis
    by (rule degenerate)
next
  case False
  then obtain Xr where x: "Xraw = Some Xr" "Xr \<noteq> []"
    by auto
  define X where "X = applyScaler Xr (computeScaler (Some Xr))"
  from dbscan_run [OF x(2), of eps0 minPts g] assms x(1) obtain v ls c where
    "scan_inv X (default_eps eps0) minPts v ls c"
    "\<forall>i < length X. v ! i"
    "r = \<lparr>labels = ls,
          corePoints = filter (\<lambda>i. minPts \<le> int (length (regionQuery X (default_eps eps0) i)) + 1)
                              [0..<length X],
          scaler = computeScaler (Some Xr), Xscaled = X,
          summary = Some \<lparr>counts = count_labels ls\<rparr>\<rparr>"
    "g' = Some \<lparr>last_Xraw = Xr, last_Xscaled = X, last_labels = ls,
                last_corePoints =
                  filter (\<lambda>i. minPts \<le> int (length (regionQuery X (default_eps eps0) i)) + 1)
                         [0..<length X],
                last_scaler = computeScaler (Some Xr), last_eps = default_eps eps0,
                last_minPts = minPts, last_summary = \<lparr>counts = count_labels ls\<rparr>\<rparr>"
    unfolding X_def by auto
  with x show ?thesis
    by (intro run [of Xr v c]) (simp_all add: X_def applyScaler_def)
qed

text \<open>
  C2. In the result of \<open>dbscan\<close> a point labelled \<open>-1\<close> has fewer than
  \<open>minPts\<close> points in its eps-neighbourhood in scaled space (itself included), and
  its index is not in \<open>corePoints\<close>. This holds for every \<open>eps\<close> and \<open>minPts\<close>.
\<close>

theorem dbscan_noise_not_core:
  assumes "dbscan Xraw eps minPts g = Inr (r, g')"
    and "i < length (labels r)" and "labels r ! i = Lab (- 1)"
  shows "int (length (regionQuery (Xscaled r) (default_eps eps) i)) + 1 < minPts
         \<and> i \<notin> set (corePoints r)"
  using assms(1)
proof (cases rule: dbscan_cases)
  case degenerate
  with assms(2) show ?thesis
    by (simp add: empty_result_def)
next
  case (run Xr v c)
  from run(6) assms(2,3) have "\<not> isCore (Xscaled r) (default_eps eps) minPts i"
    by (simp add: scan_inv_def noise_not_core_def)
  with run(8) show ?thesis
    by (simp add: isCore_def)
qed

text \<open>The number of distinct labels that are not negative.\<close>

definition cluster_count :: "label list \<Rightarrow> nat" where
  "cluster_count ls =
     length (remdups (filter (\<lambda>l. case l of Unset \<Rightarrow> False | Lab c \<Rightarrow> 0 \<le> c) ls))"

lemma cluster_count_ids:
  assumes "ids_upto (c - 1) ls" "0 \<le> c"
  shows "int (cluster_count ls) = c"
proof -
  have "set (filter (\<lambda>l. case l of Unset \<Rightarrow> False | Lab c \<Rightarrow> 0 \<le> c) ls) = Lab ` {0..<c}"
  proof (intro set_eqI iffI)
    fix l assume "l \<in> set (filter (\<lambda>l. case l of Unset \<Rightarrow> False | Lab c \<Rightarrow> 0 \<le> c) ls)"
    then have m: "l \<in> set ls" "case l of Unset \<Rightarrow> False | Lab c \<Rightarrow> 0 \<le> c"
      by auto
    have "\<exists>k. l = Lab k \<and> 0 \<le> k"
    proof (cases l)
      case Unset
      with m(2) show ?thesis by simp
    next
      case (Lab k)
      with m(2) show ?thesis by simp
    qed
    with m(1) obtain k where k: "l = Lab k" "0 \<le> k" "Lab k \<in> set ls"
      by auto
    from k(3) obtain a where "a < length ls" "ls ! a = Lab k"
      by (auto simp: in_set_conv_nth)
    with assms(1) k(2) have "k \<le> c - 1"
      by (auto simp: ids_upto_def)
    with k show "l \<in> Lab ` {0..<c}"
      by auto
  next
    fix l assume "l \<in> Lab ` {0..<c}"
    then obtain k where k: "l = Lab k" "0 \<le> k" "k < c"
      by auto
    with assms(1) have "Lab k \<in> set ls"
      by (simp add: ids_upto_def)
    with k show "l \<in> set (filter (\<lambda>l. case l of Unset \<Rightarrow> False | Lab c \<Rightarrow> 0 \<le> c) ls)"
      by simp
  qed
  then have "cluster_count ls = card (Lab ` {0..<c})"
    by (simp add: cluster_count_def length_remdups_card_conv)
  also have "\<dots> = card {0..<c}"
    by (rule card_image) (simp add: inj_on_def)
  finally show ?thesis
    using assms(2) by simp
qed

text \<open>
  C4. \<open>dbscan\<close> returns on every input, with one label per row; every label is set
  and is \<open>-1\<close> or an integer from \<open>0\<close> up to, but less than, the number of distinct
  non-negative labels. This holds for every \<open>eps\<close> and \<open>minPts\<close>.
\<close>

theorem dbscan_label_domain:
  "\<exists>r g'. dbscan Xraw eps minPts g = Inr (r, g')
      \<and> length (labels r) = length (or_empty Xraw)
      \<and> (\<forall>l \<in> set (labels r). \<exists>c. l = Lab c \<and>
            (c = - 1 \<or> (0 \<le> c \<and> c < int (cluster_count (labels r)))))"
proof (cases "Xraw = None \<or> Xraw = Some []")
  case True
  then show ?thesis
    by (auto simp: dbscan_def empty_result_def or_empty_def)
next
  case False
  then obtain Xr where x: "Xraw = Some Xr" "Xr \<noteq> []"
    by auto
  from dbscan_run [OF x(2), of eps minPts g] x(1) obtain r g' where
    d: "dbscan Xraw eps minPts g = Inr (r, g')"
    by auto
  then show ?thesis
  proof (cases rule: dbscan_cases)
    case degenerate
    with False show ?thesis by simp
  next
    case (run Xr' v c)
    from run(6) have ll: "length (labels r) = length (Xscaled r)" and c0: "0 \<le> c"
      and sv: "set_iff_visited v (labels r)" and ids: "ids_upto (c - 1) (labels r)"
      by (simp_all add: scan_inv_def shape_def)
    from cluster_count_ids [OF ids c0] have cc: "int (cluster_count (labels r)) = c" .
    have "\<exists>k. l = Lab k \<and> (k = - 1 \<or> (0 \<le> k \<and> k < c))" if "l \<in> set (labels r)" for l
    proof -
      from that obtain a where a: "a < length (labels r)" "labels r ! a = l"
        by (auto simp: in_set_conv_nth)
      with run(7) ll sv have "l \<noteq> Unset"
        by (auto simp: set_iff_visited_def)
      then obtain k where k: "l = Lab k"
        by (cases l) auto
      with ids a have "k = - 1 \<or> (0 \<le> k \<and> k \<le> c - 1)"
        by (auto simp: ids_upto_def)
      with k show ?thesis
        by auto
    qed
    with d cc ll run(1,4) show ?thesis
      by (auto simp: or_empty_def)
  qed
qed

section \<open>The scenario of four points\<close>

text \<open>
  The matrix \<open>[[0,0],[0,1],[1,0],[10,10]]\<close>. Both columns have mean \<open>11/4\<close> and
  sample standard deviation \<open>sqrt (283/12)\<close>; \<open>z4\<close> is the z-score of a cell and
  \<open>X4\<close> the scaled matrix.
\<close>

definition sigma4 :: real where
  "sigma4 = sqrt (283 / 12)"

definition z4 :: "real \<Rightarrow> real" where
  "z4 x = (x - 11 / 4) / sigma4"

definition Xraw4 :: matrix where
  "Xraw4 = [[Num 0, Num 0], [Num 0, Num 1], [Num 1, Num 0], [Num 10, Num 10]]"

definition X4 :: matrix where
  "X4 = [[Num (z4 0), Num (z4 0)], [Num (z4 0), Num (z4 1)],
         [Num (z4 1), Num (z4 0)], [Num (z4 10), Num (z4 10)]]"

lemma sigma4_gt: "1 < sigma4"
  by (simp add: sigma4_def)

lemma sigma4_sq: "sigma4 * sigma4 = 283 / 12"
  by (simp add: sigma4_def)

lemma scaler4:
  "computeScaler (Some Xraw4) = Scaler (Arr [Num (11 / 4), Num (11 / 4)]) (Arr [Num sigma4, Num sigma4])"
  using sigma4_gt
  by (simp add: Xraw4_def computeScaler_def column_sum_def column_sqdev_def js_nth_def js_or_def
      upt_conv_Cons Let_def sigma4_def [symmetric])

lemma apply2:
  assumes "s \<noteq> 0" "s' \<noteq> 0"
  shows "applyScalerToRow [Num a, Num b] (Scaler (Arr [Num m, Num m']) (Arr [Num s, Num s']))
         = [Num ((a - m) / s), Num ((b - m') / s')]"
  using assms by (simp add: js_nth_def js_or_def)

lemma scaled4: "applyScaler Xraw4 (computeScaler (Some Xraw4)) = X4"
  unfolding scaler4 using sigma4_gt
  by (simp add: applyScaler_def Xraw4_def X4_def z4_def apply2 del: applyScalerToRow.simps)

lemma js_or_Num: "js_or (Num x) (Num 0) = Num x"
  by (simp add: js_or_def)

lemma up2: "[0..<2] = [0, 1]"
  by (simp add: upt_conv_Cons)

lemma dist2:
  assumes "0 < s"
  shows "euclidean [Num ((a - m) / s), Num ((b - m') / s)] [Num ((c - m) / s), Num ((d - m') / s)]
         = Num (sqrt ((a - c)\<^sup>2 + (b - d)\<^sup>2) / s)"
proof -
  have "((a - m) / s - (c - m) / s) * ((a - m) / s - (c - m) / s)
        + ((b - m') / s - (d - m') / s) * ((b - m') / s - (d - m') / s)
        = ((a - c)\<^sup>2 + (b - d)\<^sup>2) / s\<^sup>2"
    using assms by (simp add: power2_eq_square field_simps)
  moreover have "sqrt (((a - c)\<^sup>2 + (b - d)\<^sup>2) / s\<^sup>2) = sqrt ((a - c)\<^sup>2 + (b - d)\<^sup>2) / s"
    using assms by (simp add: real_sqrt_divide)
  moreover have "0 \<le> ((a - c)\<^sup>2 + (b - d)\<^sup>2) / s\<^sup>2" by simp
  ultimately show ?thesis
    by (simp add: euclidean_def up2 js_nth_def js_or_Num Let_def not_less)
qed

lemma near4:
  "js_le (euclidean [Num (z4 a), Num (z4 b)] [Num (z4 c), Num (z4 d)]) (Num (3 / 2))
   \<longleftrightarrow> (a - c)\<^sup>2 + (b - d)\<^sup>2 \<le> 849 / 16"
proof -
  have "(3 / 2 * sigma4)\<^sup>2 = 9 / 4 * (sigma4 * sigma4)"
    by (simp add: power2_eq_square)
  then have "(3 / 2 * sigma4)\<^sup>2 = 849 / 16"
    by (simp add: sigma4_sq)
  moreover have "0 \<le> 3 / 2 * sigma4"
    using sigma4_gt by simp
  ultimately have e: "sqrt (849 / 16) = 3 / 2 * sigma4"
    by (rule real_sqrt_unique)
  have "sqrt k / sigma4 \<le> 3 / 2 \<longleftrightarrow> sqrt k \<le> sqrt (849 / 16)" for k
    unfolding e using sigma4_gt by (simp add: field_simps)
  then have "sqrt k / sigma4 \<le> 3 / 2 \<longleftrightarrow> k \<le> 849 / 16" for k
    by simp
  moreover have "0 < sigma4" using sigma4_gt by simp
  ultimately show ?thesis
    by (simp add: z4_def dist2)
qed

lemma length_X4: "length X4 = 4"
  by (simp add: X4_def)

lemma regionQuery4:
  "regionQuery X4 (Num (3 / 2)) 0 = [1, 2]"
  "regionQuery X4 (Num (3 / 2)) 1 = [0, 2]"
  "regionQuery X4 (Num (3 / 2)) 2 = [0, 1]"
  "regionQuery X4 (Num (3 / 2)) 3 = []"
  by (simp_all add: regionQuery_def X4_def upt_conv_Cons near4 power2_eq_square)

lemma regionQuery4_Suc: "regionQuery X4 (Num (3 / 2)) (Suc 0) = [0, 2]"
  using regionQuery4(2) by simp

lemma list_update_numeral:
  "(x # xs)[numeral k := y] = x # xs[pred_numeral k := y]"
  by (simp add: numeral_eq_Suc)

lemma walk4:
  "scan X4 (Num (3 / 2)) 3 [0, 1, 2, 3]
     ([False, False, False, False], [Unset, Unset, Unset, Unset], 0)
   = Inr ([True, True, True, True], [Lab 0, Lab 0, Lab 0, Lab (- 1)], 1)"
  by (simp add: regionQuery4 regionQuery4_Suc pushNew_def claimLabel_def list_update_numeral)


lemma up4: "[0..<4] = [0, 1, 2, 3]"
  by (simp add: upt_conv_Cons)

lemma replicate4: "replicate 4 x = [x, x, x, x]"
  by (simp add: numeral_eq_Suc)

lemma dbscan4:
  "dbscan (Some Xraw4) (Num (3 / 2)) 3 g =
     Inr (\<lparr>labels = [Lab 0, Lab 0, Lab 0, Lab (- 1)], corePoints = [0, 1, 2],
           scaler = Scaler (Arr [Num (11 / 4), Num (11 / 4)]) (Arr [Num sigma4, Num sigma4]),
           Xscaled = X4,
           summary = Some \<lparr>counts = [Lab 0 \<mapsto> 3, Lab (- 1) \<mapsto> 1]\<rparr>\<rparr>,
          Some \<lparr>last_Xraw = Xraw4, last_Xscaled = X4,
                last_labels = [Lab 0, Lab 0, Lab 0, Lab (- 1)], last_corePoints = [0, 1, 2],
                last_scaler = Scaler (Arr [Num (11 / 4), Num (11 / 4)]) (Arr [Num sigma4, Num sigma4]),
                last_eps = Num (3 / 2), last_minPts = 3,
                last_summary = \<lparr>counts = [Lab 0 \<mapsto> 3, Lab (- 1) \<mapsto> 1]\<rparr>\<rparr>)"
proof -
  have ne: "Xraw4 \<noteq> []"
    by (simp add: Xraw4_def)
  have c: "count_labels [Lab 0, Lab 0, Lab 0, Lab (- 1)] = [Lab 0 \<mapsto> 3, Lab (- 1) \<mapsto> 1]"
    by (simp add: count_labels_def numeral_3_eq_3)
  note sc = scaled4 [unfolded scaler4]
  have w: "scan X4 (Num (3 / 2)) 3 [0..<length X4]
             (replicate (length X4) False, replicate (length X4) Unset, 0)
           = Inr ([True, True, True, True], [Lab 0, Lab 0, Lab 0, Lab (- 1)], 1)"
    by (simp only: length_X4 up4 replicate4 walk4)
  have cp: "filter (\<lambda>i. 3 \<le> int (length (regionQuery X4 (Num (3 / 2)) i)) + 1) [0..<length X4]
            = [0, 1, 2]"
    by (simp add: length_X4 up4 regionQuery4 regionQuery4_Suc)
  have ne': "(length Xraw4 = 0) = False"
    using ne by simp
  show ?thesis
    unfolding dbscan_def
    by (simp only: option.case ne' if_False Let_def default_eps.simps scaler4 sc w cp c
        sum.case prod.case)
qed

text \<open>
  C1. On \<open>[[0,0],[0,1],[1,0],[10,10]]\<close> with \<open>eps = 1.5\<close> and \<open>minPts = 3\<close>,
  \<open>dbscan\<close> labels the first three points \<open>0\<close> and the fourth \<open>-1\<close>, and the
  summary it returns holds, in its field \<open>counts\<close>, the mapping \<open>{0: 3, -1: 1}\<close>.
\<close>

theorem dbscan_scenario:
  "\<exists>r g'. dbscan (Some [[Num 0, Num 0], [Num 0, Num 1], [Num 1, Num 0], [Num 10, Num 10]])
              (Num (3 / 2)) 3 g = Inr (r, g')
     \<and> labels r = [Lab 0, Lab 0, Lab 0, Lab (- 1)]
     \<and> summary r = Some \<lparr>counts = [Lab 0 \<mapsto> 3, Lab (- 1) \<mapsto> 1]\<rparr>"
  using dbscan4 [of g] by (simp add: Xraw4_def)

text \<open>The result and the session of the run on the four points.\<close>

definition result4 :: result where
  "result4 = \<lparr>labels = [Lab 0, Lab 0, Lab 0, Lab (- 1)], corePoints = [0, 1, 2],
           scaler = Scaler (Arr [Num (11 / 4), Num (11 / 4)]) (Arr [Num sigma4, Num sigma4]),
           Xscaled = X4,
           summary = Some \<lparr>counts = [Lab 0 \<mapsto> 3, Lab (- 1) \<mapsto> 1]\<rparr>\<rparr>"

definition session4 :: session where
  "session4 = \<lparr>last_Xraw = Xraw4, last_Xscaled = X4,
                last_labels = [Lab 0, Lab 0, Lab 0, Lab (- 1)], last_corePoints = [0, 1, 2],
                last_scaler = Scaler (Arr [Num (11 / 4), Num (11 / 4)]) (Arr [Num sigma4, Num sigma4]),
                last_eps = Num (3 / 2), last_minPts = 3,
                last_summary = \<lparr>counts = [Lab 0 \<mapsto> 3, Lab (- 1) \<mapsto> 1]\<rparr>\<rparr>"

lemma dbscan4': "dbscan (Some Xraw4) (Num (3 / 2)) 3 g = Inr (result4, Some session4)"
  by (simp only: dbscan4 result4_def session4_def)

theorem dbscan_noise_not_core_witness:
  "dbscan (Some Xraw4) (Num (3 / 2)) 3 None = Inr (result4, Some session4)
   \<and> 3 < length (labels result4) \<and> labels result4 ! 3 = Lab (- 1)
   \<and> int (length (regionQuery (Xscaled result4) (default_eps (Num (3 / 2))) 3)) + 1 < 3
   \<and> 3 \<notin> set (corePoints result4)"
  using dbscan_noise_not_core [of "Some Xraw4" "Num (3 / 2)" 3 None result4 "Some session4" 3]
    dbscan4' [of None]
  by (simp add: result4_def)

lemma cluster_count4: "cluster_count [Lab 0, Lab 0, Lab 0, Lab (- 1)] = 1"
  by (simp add: cluster_count_def)

theorem dbscan_label_domain_witness:
  "dbscan (Some Xraw4) (Num (3 / 2)) 3 None = Inr (result4, Some session4)
   \<and> length (labels result4) = length (or_empty (Some Xraw4))
   \<and> cluster_count (labels result4) = 1
   \<and> list_all (\<lambda>l. l = Lab (- 1) \<or> l = Lab 0) (labels result4)"
  using dbscan_label_domain [of "Some Xraw4" "Num (3 / 2)" 3 None] dbscan4' [of None]
  by (simp add: result4_def cluster_count4 or_empty_def Xraw4_def)

section \<open>First discovery wins\<close>

text \<open>
  Three points on a line, already scaled, with \<open>eps = 1\<close> and \<open>minPts = 3\<close>: the
  first point is visited first and labelled \<open>-1\<close>; the second is a core point, and the
  first is reclaimed when the worklist of its cluster reaches it.
\<close>

definition X3 :: matrix where
  "X3 = [[Num 0], [Num 1], [Num 2]]"

lemma sqrt_4: "sqrt 4 = 2"
  using real_sqrt_abs [of 2] by simp

lemma dist1: "euclidean [Num a] [Num b] = Num \<bar>a - b\<bar>"
proof -
  have "sqrt ((a - b) * (a - b)) = \<bar>a - b\<bar>"
    using real_sqrt_abs [of "a - b"] by (simp add: power2_eq_square)
  moreover have "\<not> (a - b) * (a - b) < 0"
    by (simp add: not_less)
  ultimately show ?thesis
    by (simp add: euclidean_def js_nth_def js_or_Num Let_def)
qed

lemma regionQuery3:
  "regionQuery X3 (Num 1) 0 = [1]"
  "regionQuery X3 (Num 1) 1 = [0, 2]"
  "regionQuery X3 (Num 1) 2 = [1]"
  by (simp_all add: regionQuery_def X3_def upt_conv_Cons dist1)

lemma regionQuery3_Suc: "regionQuery X3 (Num 1) (Suc 0) = [0, 2]"
  using regionQuery3(2) by simp

lemma expand3:
  "expand X3 (Num 1) 3 0 [0, 2] [True, True, False] [Lab (- 1), Lab 0, Unset]
   = Inr ([True, True, True], [Lab 0, Lab 0, Lab 0])"
  by (simp add: regionQuery3 regionQuery3_Suc pushNew_def claimLabel_def list_update_numeral)

lemma scan3_pre:
  "scan X3 (Num 1) 3 [0, 1] ([False, False, False], [Unset, Unset, Unset], 0)
   = Inr ([True, True, True], [Lab 0, Lab 0, Lab 0], 1)"
  by (simp add: regionQuery3 regionQuery3_Suc pushNew_def claimLabel_def list_update_numeral)

lemma scan3_post:
  "scan X3 (Num 1) 3 [2] ([True, True, True], [Lab 0, Lab 0, Lab 0], 1)
   = Inr ([True, True, True], [Lab 0, Lab 0, Lab 0], 1)"
  by simp


text \<open>
  After any prefix of the outer loop's iterations, started from the initial state, the
  rest of the loop keeps every label that is a cluster id.
\<close>

lemma scan_keeps_ids:
  assumes pre: "\<forall>i \<in> set pre. i < length X" and post: "\<forall>i \<in> set post. i < length X"
    and s1: "scan X eps minPts pre (replicate (length X) False, replicate (length X) Unset, 0)
             = Inr (v1, ls1, c1)"
    and s2: "scan X eps minPts post (v1, ls1, c1) = Inr (v2, ls2, c2)"
    and b: "b < length X" "ls1 ! b = Lab k" "0 \<le> k"
  shows "ls2 ! b = Lab k"
proof -
  from scan_inv_run [OF scan_inv_init pre, of eps minPts] s1
  have "scan_inv X eps minPts v1 ls1 c1"
    by auto
  from scan_inv_run [OF this post] s2 b show ?thesis
    by auto
qed

lemma expand_reclaims:
  assumes "j < length v" "v ! j" "ls ! j = Lab (- 1)"
  shows "expand X eps minPts cid [j] v ls = Inr (v, ls[j := Lab cid])"
  using assms by (simp add: claimLabel_def)

text \<open>
  C5. A label slot that holds a cluster id (a label that is not negative) is never
  changed again: not by the rest of the \<open>while\<close> loop, from any state of it, and not
  by the later iterations of the outer loop, after any prefix of them. A visited point
  labelled \<open>-1\<close> that is taken from the worklist is relabelled with the current cluster
  id.
\<close>

theorem cluster_id_kept:
  "(expand X eps minPts cid stack v ls = Inr (v', ls') \<and> a < length ls \<and> ls ! a = Lab k \<and> 0 \<le> k
      \<longrightarrow> ls' ! a = Lab k)
   \<and> ((\<forall>i \<in> set pre. i < length X) \<and> (\<forall>i \<in> set post. i < length X)
      \<and> scan X eps minPts pre (replicate (length X) False, replicate (length X) Unset, 0)
          = Inr (v1, ls1, c1)
      \<and> scan X eps minPts post (v1, ls1, c1) = Inr (v2, ls2, c2)
      \<and> b < length X \<and> ls1 ! b = Lab k' \<and> 0 \<le> k'
      \<longrightarrow> ls2 ! b = Lab k')
   \<and> (j < length v0 \<and> v0 ! j \<and> ls0 ! j = Lab (- 1)
      \<longrightarrow> expand X eps minPts cid [j] v0 ls0 = Inr (v0, ls0[j := Lab cid]))"
proof (intro conjI impI)
  assume h: "expand X eps minPts cid stack v ls = Inr (v', ls') \<and> a < length ls \<and> ls ! a = Lab k \<and> 0 \<le> k"
  with expand_keeps [of X eps minPts cid stack v ls v' ls' a] show "ls' ! a = Lab k"
    by auto
next
  assume "(\<forall>i \<in> set pre. i < length X) \<and> (\<forall>i \<in> set post. i < length X)
      \<and> scan X eps minPts pre (replicate (length X) False, replicate (length X) Unset, 0)
          = Inr (v1, ls1, c1)
      \<and> scan X eps minPts post (v1, ls1, c1) = Inr (v2, ls2, c2)
      \<and> b < length X \<and> ls1 ! b = Lab k' \<and> 0 \<le> k'"
  then show "ls2 ! b = Lab k'"
    using scan_keeps_ids [of pre X post eps minPts v1 ls1 c1 v2 ls2 c2 b k'] by blast
next
  assume "j < length v0 \<and> v0 ! j \<and> ls0 ! j = Lab (- 1)"
  then have "j < length v0" "v0 ! j" "ls0 ! j = Lab (- 1)"
    by simp_all
  then show "expand X eps minPts cid [j] v0 ls0 = Inr (v0, ls0[j := Lab cid])"
    by (rule expand_reclaims)
qed

lemma expand3_one:
  "expand X3 (Num 1) 3 0 [0] [True, True, False] [Lab (- 1), Lab 0, Unset]
   = Inr ([True, True, False], [Lab 0, Lab 0, Unset])"
  by (simp add: claimLabel_def)

theorem cluster_id_kept_witness:
  "expand X3 (Num 1) 3 0 [0, 2] [True, True, False] [Lab (- 1), Lab 0, Unset]
     = Inr ([True, True, True], [Lab 0, Lab 0, Lab 0])
   \<and> [Lab (- 1), Lab 0, Unset] ! 1 = Lab 0 \<and> [Lab 0, Lab 0, Lab 0] ! 1 = Lab 0
   \<and> scan X3 (Num 1) 3 [0, 1] (replicate (length X3) False, replicate (length X3) Unset, 0)
     = Inr ([True, True, True], [Lab 0, Lab 0, Lab 0], 1)
   \<and> scan X3 (Num 1) 3 [2] ([True, True, True], [Lab 0, Lab 0, Lab 0], 1)
     = Inr ([True, True, True], [Lab 0, Lab 0, Lab 0], 1)
   \<and> [True, True, False] ! 0 \<and> [Lab (- 1), Lab 0, Unset] ! 0 = Lab (- 1)
   \<and> expand X3 (Num 1) 3 0 [0] [True, True, False] [Lab (- 1), Lab 0, Unset]
     = Inr ([True, True, False], [Lab 0, Lab 0, Unset])"
  using cluster_id_kept [where X = X3 and eps = "Num 1" and minPts = 3 and cid = 0
      and stack = "[0, 2]" and v = "[True, True, False]" and ls = "[Lab (- 1), Lab 0, Unset]"
      and v' = "[True, True, True]" and ls' = "[Lab 0, Lab 0, Lab 0]" and a = 1 and k = 0
      and pre = "[0, 1]" and post = "[2]" and ?v1.0 = "[True, True, True]"
      and ?ls1.0 = "[Lab 0, Lab 0, Lab 0]" and ?c1.0 = 1 and ?v2.0 = "[True, True, True]"
      and ?ls2.0 = "[Lab 0, Lab 0, Lab 0]" and ?c2.0 = 1 and b = 0 and k' = 0 and j = 0
      and ?v0.0 = "[True, True, False]" and ?ls0.0 = "[Lab (- 1), Lab 0, Unset]"]
    expand3 scan3_pre scan3_post expand3_one
  by (simp add: X3_def numeral_3_eq_3)

section \<open>Properties of the distance metric\<close>

text \<open>
  A result of \<open>euclidean\<close> is never negative: it is a number \<open>\<ge> 0\<close>, \<open>Infinity\<close>
  or \<open>NaN\<close>. \<open>zero_fill n a\<close> is \<open>a\<close> made \<open>n\<close> long, with \<open>0\<close> at every
  position that is missing or falsy.
\<close>

fun nonneg_val :: "jsval \<Rightarrow> bool" where
  "nonneg_val (Num x) = (0 \<le> x)"
| "nonneg_val PInf = True"
| "nonneg_val NaN = True"
| "nonneg_val _ = False"


lemma square_nonneg: "nonneg_val (js_mul d d)"
  by (cases d) auto

lemma add_nonneg: "nonneg_val s \<Longrightarrow> nonneg_val t \<Longrightarrow> nonneg_val (js_add s t)"
  by (cases s; cases t) auto

lemma sqrt_nonneg: "nonneg_val s \<Longrightarrow> nonneg_val (Math_sqrt s)"
  by (cases s) auto

lemma sum_squares_nonneg:
  "nonneg_val s \<Longrightarrow> nonneg_val (fold (\<lambda>i s. js_add s (js_mul (f i) (f i))) is s)"
  by (induction "is" arbitrary: s) (simp_all add: add_nonneg square_nonneg)

lemma euclidean_nonneg_val: "nonneg_val (euclidean a b)"
  unfolding euclidean_def Let_def
  by (intro sqrt_nonneg sum_squares_nonneg) simp










section \<open>The search for the nearest core point\<close>

text \<open>
  \<open>first_nearest d cmp k\<close>: in the iteration order \<open>cmp\<close>, \<open>k\<close> is the first index
  of least distance \<open>d\<close>: every index before it is strictly farther, and none after it
  is nearer.
\<close>

definition first_nearest :: "(nat \<Rightarrow> real) \<Rightarrow> nat list \<Rightarrow> nat \<Rightarrow> bool" where
  "first_nearest d cmp k =
     (\<exists>ys zs. cmp = ys @ k # zs \<and> (\<forall>j \<in> set ys. d k < d j) \<and> (\<forall>j \<in> set zs. d k \<le> d j))"

lemma first_nearest_mem: "first_nearest d cmp k \<Longrightarrow> k \<in> set cmp"
  by (auto simp: first_nearest_def)

lemma first_nearest_le: "first_nearest d cmp k \<Longrightarrow> j \<in> set cmp \<Longrightarrow> d k \<le> d j"
  by (auto simp: first_nearest_def less_imp_le)

lemma first_nearest_keep:
  assumes "first_nearest d cmp k" "d k \<le> d x"
  shows "first_nearest d (cmp @ [x]) k"
proof -
  from assms(1) obtain ys zs where
    "cmp = ys @ k # zs" "\<forall>j \<in> set ys. d k < d j" "\<forall>j \<in> set zs. d k \<le> d j"
    by (auto simp: first_nearest_def)
  with assms(2) have "cmp @ [x] = ys @ k # (zs @ [x]) \<and> (\<forall>j \<in> set ys. d k < d j)
      \<and> (\<forall>j \<in> set (zs @ [x]). d k \<le> d j)"
    by auto
  then show ?thesis
    unfolding first_nearest_def by blast
qed

lemma first_nearest_new:
  assumes "cmp = [] \<or> (\<exists>k. first_nearest d cmp k \<and> d x < d k)"
  shows "first_nearest d (cmp @ [x]) x"
proof -
  have "\<forall>j \<in> set cmp. d x < d j"
    using assms first_nearest_le [of d cmp] by fastforce
  then have "cmp @ [x] = cmp @ x # [] \<and> (\<forall>j \<in> set cmp. d x < d j) \<and> (\<forall>j \<in> set []. d x \<le> d j)"
    by simp
  then show ?thesis
    unfolding first_nearest_def by blast
qed

text \<open>The real number held by a finite JavaScript number.\<close>

fun num_of :: "jsval \<Rightarrow> real" where
  "num_of (Num x) = x"
| "num_of _ = 0"

text \<open>
  A core point can be selected when it has a scaled row and its distance to the new point
  is below \<open>Infinity\<close>, the initial best distance: a distance \<open>NaN\<close> or
  \<open>Infinity\<close> never passes the test \<open>d < best.dist\<close>.
\<close>

definition selectable :: "matrix \<Rightarrow> row \<Rightarrow> nat \<Rightarrow> bool" where
  "selectable Xs p i = (i < length Xs \<and> js_lt (euclidean (Xs ! i) p) PInf)"

lemma selectable_Num:
  "selectable Xs p i \<Longrightarrow>
   euclidean (Xs ! i) p = Num (num_of (euclidean (Xs ! i) p)) \<and> 0 \<le> num_of (euclidean (Xs ! i) p)"
  using euclidean_nonneg_val [of "Xs ! i" p]
  by (cases "euclidean (Xs ! i) p") (auto simp: selectable_def)

lemma not_selectable_skipped:
  assumes "\<not> selectable Xs p i" "bdist b = PInf \<or> (\<exists>x. bdist b = Num x)"
  shows "nearer Xs p i b = b"
proof (cases "i < length Xs")
  case False
  then show ?thesis by (simp add: nearer_def)
next
  case True
  with assms(1) have "\<not> js_lt (euclidean (Xs ! i) p) PInf"
    by (simp add: selectable_def)
  with euclidean_nonneg_val [of "Xs ! i" p]
  have "euclidean (Xs ! i) p = PInf \<or> euclidean (Xs ! i) p = NaN"
    by (cases "euclidean (Xs ! i) p") auto
  with assms(2) have "\<not> js_lt (euclidean (Xs ! i) p) (bdist b)"
    by auto
  with True show ?thesis by (simp add: nearer_def Let_def)
qed

lemma best_fold:
  "let b = fold (nearer Xs p) cps \<lparr>idx = - 1, bdist = PInf\<rparr>;
       sel = filter (selectable Xs p) cps;
       d = (\<lambda>i. num_of (euclidean (Xs ! i) p))
   in (sel = [] \<longrightarrow> b = \<lparr>idx = - 1, bdist = PInf\<rparr>)
    \<and> (sel \<noteq> [] \<longrightarrow> (\<exists>k. first_nearest d sel k \<and> b = \<lparr>idx = int k, bdist = Num (d k)\<rparr>))"
proof (induction cps rule: rev_induct)
  case Nil
  show ?case by simp
next
  case (snoc x cps)
  define b where "b = fold (nearer Xs p) cps \<lparr>idx = - 1, bdist = PInf\<rparr>"
  define sel where "sel = filter (selectable Xs p) cps"
  define d where "d = (\<lambda>i. num_of (euclidean (Xs ! i) p))"
  from snoc have ih1: "sel = [] \<longrightarrow> b = \<lparr>idx = - 1, bdist = PInf\<rparr>"
    and ih2: "sel \<noteq> [] \<longrightarrow> (\<exists>k. first_nearest d sel k \<and> b = \<lparr>idx = int k, bdist = Num (d k)\<rparr>)"
    by (simp_all add: b_def sel_def d_def Let_def)
  have f: "fold (nearer Xs p) (cps @ [x]) \<lparr>idx = - 1, bdist = PInf\<rparr> = nearer Xs p x b"
    by (simp add: b_def)
  have bd: "bdist b = PInf \<or> (\<exists>y. bdist b = Num y)"
    using ih1 ih2 by (cases "sel = []") auto
  have goal: "(sel' = [] \<longrightarrow> nearer Xs p x b = \<lparr>idx = - 1, bdist = PInf\<rparr>)
    \<and> (sel' \<noteq> [] \<longrightarrow> (\<exists>k. first_nearest d sel' k \<and> nearer Xs p x b = \<lparr>idx = int k, bdist = Num (d k)\<rparr>))"
    if s': "sel' = filter (selectable Xs p) (cps @ [x])" for sel'
  proof (cases "selectable Xs p x")
    case False
    then have n: "nearer Xs p x b = b" and e: "sel' = sel"
      using bd by (simp_all add: not_selectable_skipped s' sel_def)
    from ih1 ih2 show ?thesis
      unfolding n e by (rule conjI)
  next
    case True
    then have xl: "x < length Xs" and dx: "euclidean (Xs ! x) p = Num (d x)"
      using selectable_Num [of Xs p x] by (simp_all add: selectable_def d_def)
    from True have c: "sel' = sel @ [x]"
      by (simp add: s' sel_def)
    have "\<exists>k. first_nearest d (sel @ [x]) k \<and> nearer Xs p x b = \<lparr>idx = int k, bdist = Num (d k)\<rparr>"
    proof (cases "sel = []")
      case True
      with ih1 have "nearer Xs p x b = \<lparr>idx = int x, bdist = Num (d x)\<rparr>"
        using xl dx by (simp add: nearer_def)
      moreover from True have "first_nearest d (sel @ [x]) x"
        by (intro first_nearest_new) simp
      ultimately show ?thesis by blast
    next
      case False
      with ih2 obtain k where k: "first_nearest d sel k" "b = \<lparr>idx = int k, bdist = Num (d k)\<rparr>"
        by blast
      show ?thesis
      proof (cases "d x < d k")
        case True
        with k have "nearer Xs p x b = \<lparr>idx = int x, bdist = Num (d x)\<rparr>"
          using xl dx by (simp add: nearer_def)
        moreover from True k(1) have "first_nearest d (sel @ [x]) x"
          by (intro first_nearest_new) blast
        ultimately show ?thesis by blast
      next
        case False
        with k have "nearer Xs p x b = b"
          using xl dx by (simp add: nearer_def)
        moreover from False k(1) have "first_nearest d (sel @ [x]) k"
          by (intro first_nearest_keep) simp_all
        ultimately show ?thesis using k(2) by blast
      qed
    qed
    with c show ?thesis by simp
  qed
  from goal [OF refl] f show ?case
    by (simp add: Let_def d_def)
qed


lemma js_lt_mono: "js_lt eps (Num a) \<Longrightarrow> a \<le> b \<Longrightarrow> js_lt eps (Num b)"
  by (cases eps) auto

lemma assign_by_best:
  fixes g Xraw newPoint cps
  defines "Xs \<equiv> session_Xscaled g Xraw (session_scaler g Xraw)"
    and "p \<equiv> applyScalerToRow newPoint (session_scaler g Xraw)"
  defines "sel \<equiv> filter (selectable Xs p) cps"
    and "d \<equiv> (\<lambda>i. num_of (euclidean (Xs ! i) p))"
  shows "(sel = [] \<longrightarrow>
            assignByNearestCore g Xraw lbls cps eps newPoint = \<lparr>cluster = Lab (- 1), dist = PInf\<rparr>)
       \<and> (sel \<noteq> [] \<longrightarrow>
            (\<exists>k. first_nearest d sel k \<and>
               assignByNearestCore g Xraw lbls cps eps newPoint =
                 (if js_lt eps (Num (d k)) then \<lparr>cluster = Lab (- 1), dist = Num (d k)\<rparr>
                  else \<lparr>cluster = label_at lbls k, dist = Num (d k)\<rparr>)))"
proof -
  define b where "b = fold (nearer Xs p) cps \<lparr>idx = - 1, bdist = PInf\<rparr>"
  have res: "assignByNearestCore g Xraw lbls cps eps newPoint =
      (if idx b = - 1 \<or> js_lt eps (bdist b) then \<lparr>cluster = Lab (- 1), dist = bdist b\<rparr>
       else \<lparr>cluster = label_at lbls (nat (idx b)), dist = bdist b\<rparr>)"
    by (simp add: assignByNearestCore_def Let_def b_def Xs_def p_def)
  from best_fold [of Xs p cps] have
    b1: "sel = [] \<longrightarrow> b = \<lparr>idx = - 1, bdist = PInf\<rparr>" and
    b2: "sel \<noteq> [] \<longrightarrow> (\<exists>k. first_nearest d sel k \<and> b = \<lparr>idx = int k, bdist = Num (d k)\<rparr>)"
    by (simp_all add: Let_def b_def sel_def d_def)
  have 1: "sel = [] \<longrightarrow>
      assignByNearestCore g Xraw lbls cps eps newPoint = \<lparr>cluster = Lab (- 1), dist = PInf\<rparr>"
    using b1 res by simp
  have 2: "sel \<noteq> [] \<longrightarrow>
            (\<exists>k. first_nearest d sel k \<and>
               assignByNearestCore g Xraw lbls cps eps newPoint =
                 (if js_lt eps (Num (d k)) then \<lparr>cluster = Lab (- 1), dist = Num (d k)\<rparr>
                  else \<lparr>cluster = label_at lbls k, dist = Num (d k)\<rparr>))"
  proof
    assume "sel \<noteq> []"
    with b2 obtain k where k: "first_nearest d sel k" "b = \<lparr>idx = int k, bdist = Num (d k)\<rparr>"
      by blast
    from k(2) res have "assignByNearestCore g Xraw lbls cps eps newPoint =
                 (if js_lt eps (Num (d k)) then \<lparr>cluster = Lab (- 1), dist = Num (d k)\<rparr>
                  else \<lparr>cluster = label_at lbls k, dist = Num (d k)\<rparr>)"
      by simp
    with k(1) show "\<exists>k. first_nearest d sel k \<and>
               assignByNearestCore g Xraw lbls cps eps newPoint =
                 (if js_lt eps (Num (d k)) then \<lparr>cluster = Lab (- 1), dist = Num (d k)\<rparr>
                  else \<lparr>cluster = label_at lbls k, dist = Num (d k)\<rparr>)"
      by blast
  qed
  from 1 2 show ?thesis
    by (rule conjI)
qed

text \<open>
  C6 (amended). For every call of \<open>assignByNearestCore\<close> whose \<open>Xraw\<close> is an array or
  absent, with the scaler and the scaled matrix it uses (the stored session's, or else
  fitted from \<open>Xraw\<close>): let \<open>sel\<close> be the core points that can be selected, in
  iteration order; their distances \<open>d\<close> are finite numbers. If every one of them is
  strictly farther than \<open>eps\<close> (in particular if there is none), the result is cluster
  \<open>-1\<close> with the least of their distances, or \<open>Infinity\<close> when there is none.
  Otherwise the result is the label and the distance of the first nearest of them. This
  is the claim with "core point" read as "core point that can be selected".
\<close>

theorem assign_nearest_core:
  "let sc = session_scaler g Xraw;
       p = applyScalerToRow newPoint sc;
       Xs = session_Xscaled g Xraw sc;
       sel = filter (selectable Xs p) cps;
       d = (\<lambda>i. num_of (euclidean (Xs ! i) p))
   in (\<forall>i \<in> set sel. euclidean (Xs ! i) p = Num (d i)) \<and>
      (if \<forall>i \<in> set sel. js_lt eps (Num (d i))
       then assignByNearestCore g Xraw lbls cps eps newPoint =
              \<lparr>cluster = Lab (- 1),
               dist = (if sel = [] then PInf else Num (Min (d ` set sel)))\<rparr>
       else \<exists>k. first_nearest d sel k \<and>
              assignByNearestCore g Xraw lbls cps eps newPoint =
                \<lparr>cluster = label_at lbls k, dist = Num (d k)\<rparr>)"
proof -
  define sc where "sc = session_scaler g Xraw"
  define p where "p = applyScalerToRow newPoint sc"
  define Xs where "Xs = session_Xscaled g Xraw sc"
  define sel where "sel = filter (selectable Xs p) cps"
  define d where "d = (\<lambda>i. num_of (euclidean (Xs ! i) p))"
  have dc: "\<forall>i \<in> set sel. euclidean (Xs ! i) p = Num (d i)"
    using selectable_Num [of Xs p] by (simp add: sel_def d_def)
  from assign_by_best [of g Xraw newPoint cps lbls eps] have
    b1: "sel = [] \<longrightarrow>
      assignByNearestCore g Xraw lbls cps eps newPoint = \<lparr>cluster = Lab (- 1), dist = PInf\<rparr>" and
    b2: "sel \<noteq> [] \<longrightarrow>
            (\<exists>k. first_nearest d sel k \<and>
               assignByNearestCore g Xraw lbls cps eps newPoint =
                 (if js_lt eps (Num (d k)) then \<lparr>cluster = Lab (- 1), dist = Num (d k)\<rparr>
                  else \<lparr>cluster = label_at lbls k, dist = Num (d k)\<rparr>))"
    unfolding sel_def d_def Xs_def p_def sc_def by blast+
  have main: "if \<forall>i \<in> set sel. js_lt eps (Num (d i))
       then assignByNearestCore g Xraw lbls cps eps newPoint =
              \<lparr>cluster = Lab (- 1),
               dist = (if sel = [] then PInf else Num (Min (d ` set sel)))\<rparr>
       else \<exists>k. first_nearest d sel k \<and>
              assignByNearestCore g Xraw lbls cps eps newPoint =
                \<lparr>cluster = label_at lbls k, dist = Num (d k)\<rparr>"
  proof (cases "sel = []")
    case True
    with b1 show ?thesis by simp
  next
    case False
    with b2 obtain k where k: "first_nearest d sel k"
      "assignByNearestCore g Xraw lbls cps eps newPoint =
                 (if js_lt eps (Num (d k)) then \<lparr>cluster = Lab (- 1), dist = Num (d k)\<rparr>
                  else \<lparr>cluster = label_at lbls k, dist = Num (d k)\<rparr>)"
      by blast
    from k(1) have km: "k \<in> set sel" and kl: "\<forall>j \<in> set sel. d k \<le> d j"
      by (auto simp: first_nearest_mem first_nearest_le)
    have mn: "Min (d ` set sel) = d k"
      using km kl by (intro Min_eqI) auto
    have iff: "(\<forall>i \<in> set sel. js_lt eps (Num (d i))) \<longleftrightarrow> js_lt eps (Num (d k))"
      using km kl js_lt_mono by blast
    show ?thesis
    proof (cases "js_lt eps (Num (d k))")
      case True
      with iff k(2) False mn show ?thesis by simp
    next
      case nl: False
      with k(2) have "assignByNearestCore g Xraw lbls cps eps newPoint =
                      \<lparr>cluster = label_at lbls k, dist = Num (d k)\<rparr>"
        by simp
      with iff nl k(1) show ?thesis by auto
    qed
  qed
  from dc main show ?thesis
    unfolding Let_def d_def sel_def Xs_def p_def sc_def
    by (rule conjI)
qed

lemma scaler3: "computeScaler (Some X3) = Scaler (Arr [Num 1]) (Arr [Num 1])"
  by (simp add: X3_def computeScaler_def column_sum_def column_sqdev_def js_nth_def js_or_def
      upt_conv_Cons Let_def)

lemma apply1:
  assumes "s \<noteq> 0"
  shows "applyScalerToRow [Num a] (Scaler (Arr [Num m]) (Arr [Num s])) = [Num ((a - m) / s)]"
  using assms by (simp add: js_nth_def js_or_def)

lemma scaled3:
  "applyScaler X3 (Scaler (Arr [Num 1]) (Arr [Num 1])) = [[Num (- 1)], [Num 0], [Num 1]]"
  by (simp add: applyScaler_def X3_def apply1 del: applyScalerToRow.simps)

lemma assign3:
  "assignByNearestCore None (Some X3) [Lab 5, Lab 6, Lab 7] [0, 1, 2, 7] (Num 1) [Num (1 / 2)]
     = \<lparr>cluster = Lab 5, dist = Num (1 / 2)\<rparr>"
  "assignByNearestCore None (Some X3) [Lab 5, Lab 6, Lab 7] [0, 1, 2, 7] (Num (1 / 4)) [Num (1 / 2)]
     = \<lparr>cluster = Lab (- 1), dist = Num (1 / 2)\<rparr>"
  "assignByNearestCore None (Some X3) [Lab 5, Lab 6, Lab 7] [7] (Num 1) [Num (1 / 2)]
     = \<lparr>cluster = Lab (- 1), dist = PInf\<rparr>"
  by (simp_all add: assignByNearestCore_def session_scaler_def session_Xscaled_def or_empty_def
      scaler3 scaled3 apply1 nearer_def dist1 label_at_def Let_def del: applyScalerToRow.simps)

lemma selectable3:
  "filter (selectable (session_Xscaled None (Some X3) (session_scaler None (Some X3)))
             (applyScalerToRow [Num (1 / 2)] (session_scaler None (Some X3)))) [0, 1, 2, 7]
   = [0, 1, 2]"
  by (simp add: selectable_def session_scaler_def session_Xscaled_def or_empty_def
      scaler3 scaled3 apply1 dist1 del: applyScalerToRow.simps)

theorem assign_nearest_core_witness:
  "filter (selectable (session_Xscaled None (Some X3) (session_scaler None (Some X3)))
             (applyScalerToRow [Num (1 / 2)] (session_scaler None (Some X3)))) [0, 1, 2, 7]
     = [0, 1, 2]
   \<and> assignByNearestCore None (Some X3) [Lab 5, Lab 6, Lab 7] [0, 1, 2, 7] (Num 1) [Num (1 / 2)]
       = \<lparr>cluster = Lab 5, dist = Num (1 / 2)\<rparr>
   \<and> assignByNearestCore None (Some X3) [Lab 5, Lab 6, Lab 7] [0, 1, 2, 7] (Num (1 / 4))
         [Num (1 / 2)]
       = \<lparr>cluster = Lab (- 1), dist = Num (1 / 2)\<rparr>
   \<and> assignByNearestCore None (Some X3) [Lab 5, Lab 6, Lab 7] [7] (Num 1) [Num (1 / 2)]
       = \<lparr>cluster = Lab (- 1), dist = PInf\<rparr>"
  using assign_nearest_core [of None "Some X3" "[Num (1 / 2)]" "[0, 1, 2, 7]" "Num 1"
      "[Lab 5, Lab 6, Lab 7]"]
    assign3 selectable3
  by simp

text \<open>
  A matrix with an infinite cell: the column mean is \<open>Infinity\<close>, the scaled rows are
  \<open>[-Infinity]\<close> and \<open>[NaN]\<close>, and the distance of the first row to itself is \<open>NaN\<close>.
\<close>

definition XI :: matrix where
  "XI = [[Num 0], [PInf]]"

lemma scalerI: "computeScaler (Some XI) = Scaler (Arr [PInf]) (Arr [Num 1])"
  by (simp add: XI_def computeScaler_def column_sum_def column_sqdev_def js_nth_def js_or_def
      upt_conv_Cons Let_def)

lemma scaledI: "applyScaler XI (Scaler (Arr [PInf]) (Arr [Num 1])) = [[NInf], [NaN]]"
  by (simp add: applyScaler_def XI_def js_nth_def js_or_def)

lemma distI:
  "euclidean [NInf] [NInf] = NaN" "euclidean [NaN] [NInf] = PInf" "euclidean [NInf] [NaN] = PInf"
  by (simp_all add: euclidean_def js_nth_def js_or_def)

text \<open>
  C6 as stated fails on it: the only core point has a scaled row and is not strictly
  farther than \<open>eps = 1\<close> (its distance is \<open>NaN\<close>), so the claim promises its label
  \<open>0\<close>; the result is cluster \<open>-1\<close>.
\<close>

theorem assign_nan_distance:
  "session_Xscaled None (Some XI) (session_scaler None (Some XI)) = [[NInf], [NaN]]
   \<and> applyScalerToRow [Num 0] (session_scaler None (Some XI)) = [NInf]
   \<and> euclidean [NInf] [NInf] = NaN \<and> \<not> js_lt (Num 1) NaN
   \<and> label_at [Lab 0, Lab 1] 0 = Lab 0
   \<and> assignByNearestCore None (Some XI) [Lab 0, Lab 1] [0] (Num 1) [Num 0]
       = \<lparr>cluster = Lab (- 1), dist = PInf\<rparr>"
  by (simp add: assignByNearestCore_def session_scaler_def session_Xscaled_def or_empty_def
      scalerI scaledI distI nearer_def label_at_def Let_def js_nth_def js_or_def)


section \<open>Assignment agrees with the clustering on core points\<close>












end
